theory Spec2Isabelle
  imports Complex_Main "HOL-Library.Word"
begin

section \<open>Data model\<close>

text \<open>
  \<open>uint64_t\<close> is a 64-bit word (\<open>+\<close>, \<open>-\<close>, \<open>*\<close> wrap modulo \<open>2 ^ 64\<close>); the C++
  \<open>int\<close> holding a thread count is a 32-bit two's complement word, converted to
  \<open>uint64_t\<close> with \<open>scast\<close> (sign extension) and back with \<open>ucast\<close> (truncation).
  The two \<open>double\<close> fields are carried as reals; no property below depends on rounding.
\<close>

type_synonym u64 = "64 word"
type_synonym cint = "32 word"

text \<open>
  The constants \<open>config::MIN_THREAD_DISTANCE\<close> and \<open>config::MAX_THREAD_DISTANCE\<close> are
  declared in \<open>primesieve/config.hpp\<close>; every function that reads them takes them in a
  \<open>config\<close> value.
\<close>

record config =
  MIN_THREAD_DISTANCE :: u64
  MAX_THREAD_DISTANCE :: u64

record SharedMemory =
  shm_counts :: "u64 list"
  shm_status :: real
  shm_seconds :: real

text \<open>
  The fields of the base class \<open>PrimeSieve\<close> that this file reads or writes. A name
  cannot end with an underscore here, so the member \<open>start_\<close> is the field \<open>m_start\<close>,
  and so on.
\<close>

record PrimeSieve =
  m_start :: u64
  m_stop :: u64
  m_counts :: "u64 list"
  m_seconds :: real
  m_processed :: u64
  m_percent :: real

text \<open>\<open>ParallelPrimeSieve\<close> derives from \<open>PrimeSieve\<close>; \<open>shm_\<close> is a nullable pointer.\<close>

record ParallelPrimeSieve = PrimeSieve +
  m_shm :: "SharedMemory option"
  m_numThreads :: cint

section \<open>Helpers of \<open>pmath.hpp\<close> and \<open>PrimeSieve\<close>\<close>

text \<open>
  Modelled from the spec: \<open>checkedAdd\<close> (\<open>pmath.hpp\<close>), the overflow-safe addition that
  saturates instead of wrapping. It saturates at the largest 64-bit value; \<open>align\<close> then
  clips that value to \<open>stop_\<close>.
\<close>

definition checkedAdd :: "u64 \<Rightarrow> u64 \<Rightarrow> u64" where
  "checkedAdd a b =
     (if a \<ge> 18446744073709551615 - b then 18446744073709551615 else a + b)"

text \<open>
  Modelled from the spec: \<open>inBetween(min, x, max)\<close> (\<open>pmath.hpp\<close>), the clamp of \<open>x\<close> to
  \<open>[min, max]\<close>, compared in the common type of its arguments.
\<close>

definition inBetween :: "u64 \<Rightarrow> u64 \<Rightarrow> u64 \<Rightarrow> u64" where
  "inBetween lo x hi = (if x < lo then lo else if x > hi then hi else x)"

text \<open>
  Modelled from the spec: \<open>isqrt\<close> (\<open>pmath.hpp\<close>), the integer square root, computed
  here two bits at a time.
\<close>

fun isqrt_nat :: "nat \<Rightarrow> nat" where
  "isqrt_nat n =
     (if n < 2 then n
      else let s = 2 * isqrt_nat (n div 4)
           in if (s + 1) * (s + 1) \<le> n then s + 1 else s)"

declare isqrt_nat.simps [simp del]

definition isqrt :: "u64 \<Rightarrow> u64" where
  "isqrt x = of_nat (isqrt_nat (unat x))"

text \<open>
  Modelled from the spec: \<open>PrimeSieve::getDistance\<close>, the length \<open>stop - start\<close> of the
  interval.
\<close>

definition getDistance :: "'a PrimeSieve_scheme \<Rightarrow> u64" where
  "getDistance ps = m_stop ps - m_start ps"

section \<open>\<open>ParallelPrimeSieve::align\<close>\<close>

definition align :: "'a PrimeSieve_scheme \<Rightarrow> u64 \<Rightarrow> u64" where
  "align ps n =
     (let n32 = checkedAdd n 32
      in if n32 \<ge> m_stop ps then m_stop ps else n32 - n mod 30)"

section \<open>Thread count and chunk length\<close>

text \<open>
  \<open>idealNumThreads\<close>: \<open>inBetween(1, threads, numThreads_)\<close> compares in \<open>uint64_t\<close>, so
  the \<open>int\<close> bound is sign-extended; the result is cast back to \<open>int\<close>.
\<close>

definition idealNumThreads :: "config \<Rightarrow> 'a ParallelPrimeSieve_scheme \<Rightarrow> cint" where
  "idealNumThreads cfg ps =
     (if m_start ps > m_stop ps then 1
      else let threshold = max (MIN_THREAD_DISTANCE cfg) (isqrt (m_stop ps) div 5);
               threads = getDistance ps div threshold;
               threads = inBetween 1 threads (scast (m_numThreads ps))
           in ucast threads)"

text \<open>
  \<open>getThreadDistance\<close>: \<open>threads * 5u\<close> is a product of 32-bit unsigned values, widened
  for the comparison with \<open>chunks\<close>.
\<close>

definition getThreadDistance :: "config \<Rightarrow> 'a PrimeSieve_scheme \<Rightarrow> cint \<Rightarrow> u64" where
  "getThreadDistance cfg ps threads =
     (let unbalanced = getDistance ps div scast threads;
          balanced = isqrt (m_stop ps) * 1000;
          fastest = min balanced unbalanced;
          threadDistance =
            inBetween (MIN_THREAD_DISTANCE cfg) fastest (MAX_THREAD_DISTANCE cfg);
          chunks = getDistance ps div threadDistance;
          threadDistance =
            (if chunks < ucast (threads * 5)
             then max (MIN_THREAD_DISTANCE cfg) unbalanced
             else threadDistance)
      in threadDistance + (30 - threadDistance mod 30))"

section \<open>The worker task\<close>

text \<open>
  The engine \<open>PrimeSieve::sieve(start, stop)\<close> is outside this file: \<open>E a b\<close> stands
  for the \<open>counts_\<close> of a \<open>PrimeSieve\<close> after \<open>sieve(a, b)\<close>.
\<close>

type_synonym engine = "u64 \<Rightarrow> u64 \<Rightarrow> u64 list"

text \<open>Modelled from the spec: \<open>+=\<close> on count vectors, the element-wise sum.\<close>

definition vadd :: "u64 list \<Rightarrow> u64 list \<Rightarrow> u64 list" where
  "vadd xs ys = map2 (+) xs ys"

definition zeros :: "u64 list" where
  "zeros = replicate 6 0"

text \<open>
  The sub-range that one pass of the task's loop hands to the engine, for the value
  \<open>i\<close> of the shared index that it read under the lock.
\<close>

definition chunk :: "'a PrimeSieve_scheme \<Rightarrow> u64 \<Rightarrow> u64 \<Rightarrow> u64 \<times> u64" where
  "chunk ps threadDistance i =
     (let start = m_start ps + i * threadDistance;
          stop = checkedAdd start threadDistance;
          stop = align ps stop;
          start = (if start > m_start ps then align ps start + 1 else start)
      in (start, stop))"

text \<open>
  The state shared by the tasks: the index \<open>i\<close>, each thread's local \<open>counts\<close>
  (\<open>None\<close> once the thread has merged them and ended) and the object's \<open>counts_\<close>.
\<close>

record pool =
  p_i :: u64
  p_local :: "u64 list option list"
  p_counts :: "u64 list"

text \<open>
  One step of thread \<open>t\<close>, taken while it holds the lock: either it takes chunk \<open>i\<close>
  (the sieving that follows touches only its own \<open>counts\<close>), or it finds
  \<open>i >= iters\<close>, leaves the loop and merges. A thread that has ended does nothing.
\<close>

definition task_step ::
  "engine \<Rightarrow> 'a PrimeSieve_scheme \<Rightarrow> u64 \<Rightarrow> u64 \<Rightarrow> pool \<Rightarrow> nat \<Rightarrow> pool" where
  "task_step E ps threadDistance iters p t =
     (if t < length (p_local p) then
        (case p_local p ! t of
           None \<Rightarrow> p
         | Some c \<Rightarrow>
            if p_i p \<ge> iters
            then p\<lparr>p_local := (p_local p)[t := None], p_counts := vadd (p_counts p) c\<rparr>
            else (case chunk ps threadDistance (p_i p) of
                    (a, b) \<Rightarrow>
                      p\<lparr>p_i := p_i p + 1,
                        p_local := (p_local p)[t := Some (vadd c (E a b))]\<rparr>))
      else p)"

text \<open>A schedule is the order in which the threads take their steps.\<close>

definition run_pool ::
  "engine \<Rightarrow> 'a PrimeSieve_scheme \<Rightarrow> u64 \<Rightarrow> u64 \<Rightarrow> nat list \<Rightarrow> pool \<Rightarrow> pool" where
  "run_pool E ps threadDistance iters sched p =
     foldl (task_step E ps threadDistance iters) p sched"

definition joined :: "pool \<Rightarrow> bool" where
  "joined p = list_all (\<lambda>w. w = None) (p_local p)"

section \<open>\<open>ParallelPrimeSieve::sieve\<close>\<close>

text \<open>
  Modelled from the spec: \<open>PrimeSieve::reset\<close>, which zero-initialises the counters at
  the start of a run.
\<close>

definition reset :: "'a PrimeSieve_scheme \<Rightarrow> 'a PrimeSieve_scheme" where
  "reset ps = ps\<lparr>m_counts := zeros\<rparr>"

text \<open>
  Modelled from the spec: \<open>PrimeSieve::sieve()\<close>, the single-threaded path, which runs
  the engine over \<open>[start_, stop_]\<close>.
\<close>

definition PrimeSieve_sieve ::
  "engine \<Rightarrow> real \<Rightarrow> 'a PrimeSieve_scheme \<Rightarrow> 'a PrimeSieve_scheme" where
  "PrimeSieve_sieve E elapsed ps =
     ps\<lparr>m_counts := E (m_start ps) (m_stop ps), m_seconds := elapsed\<rparr>"

definition publish :: "'a ParallelPrimeSieve_scheme \<Rightarrow> 'a ParallelPrimeSieve_scheme" where
  "publish ps =
     (case m_shm ps of
        None \<Rightarrow> ps
      | Some shm \<Rightarrow>
          ps\<lparr>m_shm := Some (shm\<lparr>shm_counts := m_counts ps, shm_seconds := m_seconds ps\<rparr>)\<rparr>)"

text \<open>
  \<open>sieve\<close> returns the object after the run and the number of threads put in the pool.
  \<open>elapsed\<close> is the measured wall-clock time and \<open>sched\<close> the order of the threads'
  steps; the joins return once every thread has ended, so a schedule that leaves a
  thread running is not a run (\<open>None\<close>).
\<close>

definition sieve ::
  "config \<Rightarrow> engine \<Rightarrow> real \<Rightarrow> nat list \<Rightarrow> 'a ParallelPrimeSieve_scheme
     \<Rightarrow> ('a ParallelPrimeSieve_scheme \<times> nat) option" where
  "sieve cfg E elapsed sched ps0 =
     (let ps = reset ps0
      in if m_start ps > m_stop ps then Some (ps, 0)
         else
           let threads = idealNumThreads cfg ps
           in if threads = 1 then Some (publish (PrimeSieve_sieve E elapsed ps), 0)
              else
                let threadDistance = getThreadDistance cfg ps threads;
                    iters = (getDistance ps - 1) div threadDistance + 1;
                    threads = (ucast (inBetween 1 (scast threads) iters) :: cint);
                    p = run_pool E ps threadDistance iters sched
                          \<lparr>p_i = 0,
                           p_local = replicate (nat (sint threads)) (Some zeros),
                           p_counts = m_counts ps\<rparr>
                in if joined p
                   then Some (publish (ps\<lparr>m_counts := p_counts p, m_seconds := elapsed\<rparr>),
                              nat (sint threads))
                   else None)"

section \<open>\<open>ParallelPrimeSieve::updateStatus\<close>\<close>

text \<open>
  Modelled from the spec: \<open>LockGuard\<close>, which takes the status lock, blocking if \<open>wait\<close>
  is true and trying once otherwise. \<open>busy\<close> says that another thread holds the lock at
  the call; a blocking guard gets the lock when that thread lets go.
\<close>

definition LockGuard_isSet :: "bool \<Rightarrow> bool \<Rightarrow> bool" where
  "LockGuard_isSet busy wait = (wait \<or> \<not> busy)"

text \<open>
  Modelled from the spec: \<open>PrimeSieve::updateStatus\<close>, which adds \<open>processed\<close> to the
  running total and recomputes the percentage against the length of the interval.
\<close>

definition PrimeSieve_updateStatus ::
  "'a PrimeSieve_scheme \<Rightarrow> u64 \<Rightarrow> 'a PrimeSieve_scheme" where
  "PrimeSieve_updateStatus ps n =
     (let total = m_processed ps + n
      in ps\<lparr>m_processed := total,
            m_percent := 100 * real (unat total) / real (unat (getDistance ps))\<rparr>)"

text \<open>Modelled from the spec: \<open>getStatus\<close>, the progress percentage.\<close>

definition getStatus :: "'a PrimeSieve_scheme \<Rightarrow> real" where
  "getStatus ps = m_percent ps"

definition updateStatus ::
  "'a ParallelPrimeSieve_scheme \<Rightarrow> bool \<Rightarrow> u64 \<Rightarrow> bool
     \<Rightarrow> 'a ParallelPrimeSieve_scheme \<times> bool" where
  "updateStatus ps busy n wait =
     (let isSet = LockGuard_isSet busy wait
      in if isSet then
           (let ps1 = PrimeSieve_updateStatus ps n;
                ps2 = (case m_shm ps1 of
                         None \<Rightarrow> ps1
                       | Some shm \<Rightarrow> ps1\<lparr>m_shm := Some (shm\<lparr>shm_status := getStatus ps1\<rparr>)\<rparr>)
            in (ps2, isSet))
         else (ps, isSet))"

section \<open>The chunks of a run\<close>

text \<open>
  The sub-ranges that the tasks hand to the engine in a multi-threaded run, in the
  order of the shared index: \<open>sieve\<close> computes \<open>threadDistance\<close> and \<open>iters\<close>, and the
  index takes every value below \<open>iters\<close> once.
\<close>

definition chunks :: "'a PrimeSieve_scheme \<Rightarrow> u64 \<Rightarrow> u64 \<Rightarrow> (u64 \<times> u64) list" where
  "chunks ps threadDistance iters =
     map (\<lambda>i. chunk ps threadDistance (of_nat i)) [0..<unat iters]"

definition sieve_chunks :: "config \<Rightarrow> 'a ParallelPrimeSieve_scheme \<Rightarrow> (u64 \<times> u64) list" where
  "sieve_chunks cfg ps =
     (let threads = idealNumThreads cfg ps;
          threadDistance = getThreadDistance cfg ps threads;
          iters = (getDistance ps - 1) div threadDistance + 1
      in chunks ps threadDistance iters)"

text \<open>
  The spec's coverage invariant: the closed sub-ranges, as sets, are pairwise disjoint
  and their union is \<open>[a, b]\<close>. A sub-range whose start is above its stop is empty, as
  it is for the engine.
\<close>

definition covers :: "(u64 \<times> u64) list \<Rightarrow> u64 \<Rightarrow> u64 \<Rightarrow> bool" where
  "covers cs a b \<longleftrightarrow>
     (\<Union>c \<in> set cs. {fst c..snd c}) = {a..b} \<and>
     (\<forall>i < length cs. \<forall>j < length cs.
        i \<noteq> j \<longrightarrow> {fst (cs ! i)..snd (cs ! i)} \<inter> {fst (cs ! j)..snd (cs ! j)} = {})"

text \<open>
  The \<open>counts_\<close> that would result if every thread still running merged its local
  counts now; the tasks' steps change it only by adding the counts of a chunk.
\<close>

fun merge_all :: "u64 list \<Rightarrow> u64 list option list \<Rightarrow> u64 list" where
  "merge_all g [] = g"
| "merge_all g (None # ws) = merge_all g ws"
| "merge_all g (Some c # ws) = merge_all (vadd g c) ws"

section \<open>The planner as the spec words it\<close>

text \<open>
  The spec's \<open>idealThreadCount(start, stop, numThreads)\<close>, on unbounded naturals: 1 if
  \<open>start > stop\<close>; otherwise \<open>clamp(distance / threshold, 1, numThreads)\<close> with
  \<open>threshold = max(MIN_THREAD_DISTANCE, isqrt(stop) / 5)\<close>.
\<close>

definition clamp :: "nat \<Rightarrow> nat \<Rightarrow> nat \<Rightarrow> nat" where
  "clamp x lo hi = (if x < lo then lo else if x > hi then hi else x)"

definition spec_idealThreadCount :: "nat \<Rightarrow> nat \<Rightarrow> nat \<Rightarrow> nat \<Rightarrow> nat" where
  "spec_idealThreadCount minDistance start stop numThreads =
     (if start > stop then 1
      else let threshold = max minDistance (isqrt_nat stop div 5)
           in clamp ((stop - start) div threshold) 1 numThreads)"

text \<open>
  The chunk length of \<open>getThreadDistance\<close> before it is rounded up, on unbounded
  naturals: the clamp of \<open>min(balanced, unbalanced)\<close> to
  \<open>[MIN_THREAD_DISTANCE, MAX_THREAD_DISTANCE]\<close>, replaced by
  \<open>max(MIN_THREAD_DISTANCE, unbalanced)\<close> when there are fewer chunks than
  \<open>threads * 5\<close>, a product that the code computes in 32 bits.
\<close>

definition unrounded_distance :: "nat \<Rightarrow> nat \<Rightarrow> nat \<Rightarrow> nat \<Rightarrow> nat \<Rightarrow> nat" where
  "unrounded_distance minDistance maxDistance distance stop threads =
     (let unbalanced = distance div threads;
          balanced = isqrt_nat stop * 1000;
          fastest = min balanced unbalanced;
          threadDistance = clamp fastest minDistance maxDistance
      in if distance div threadDistance < (threads * 5) mod 4294967296
         then max minDistance unbalanced
         else threadDistance)"

section \<open>Facts about the helpers\<close>

lemma unat_u64_le: "unat (x :: u64) \<le> 18446744073709551615"
  using unsigned_less [of x, where 'a = nat] by simp

lemma unat_max_minus: "unat (18446744073709551615 - b :: u64) = 18446744073709551615 - unat b"
  by (simp add: unat_sub word_le_nat_alt unat_u64_le)

lemma unat_add_u64: "unat a + unat b < 18446744073709551616 \<Longrightarrow> unat (a + b :: u64) = unat a + unat b"
  using unat_add_lem [of a b] by simp

lemma unat_checkedAdd: "unat (checkedAdd a b) = min (unat a + unat b) 18446744073709551615"
proof (cases "18446744073709551615 - b \<le> a")
  case True
  then have "18446744073709551615 - unat b \<le> unat a"
    by (simp add: word_le_nat_alt unat_max_minus)
  with True show ?thesis by (simp add: checkedAdd_def)
next
  case False
  then have "unat a < 18446744073709551615 - unat b"
    by (simp add: word_le_nat_alt unat_max_minus)
  then have "unat a + unat b < 18446744073709551615" by simp
  with False show ?thesis by (simp add: checkedAdd_def unat_add_u64)
qed

lemma checkedAdd_ge_iff: "(x \<le> checkedAdd a b) = (unat x \<le> unat a + unat b)"
  using unat_u64_le [of x] by (simp add: word_le_nat_alt unat_checkedAdd)

lemma checkedAdd_exact:
  assumes "unat a + unat b < 18446744073709551615"
  shows "checkedAdd a b = a + b"
proof -
  from assms have "\<not> 18446744073709551615 - unat b \<le> unat a" by linarith
  then show ?thesis
    by (simp add: checkedAdd_def word_le_nat_alt unat_max_minus)
qed

lemma align_clipped: "unat (m_stop ps) \<le> unat n + 32 \<Longrightarrow> align ps n = m_stop ps"
  by (simp add: align_def Let_def checkedAdd_ge_iff)

lemma unat_mod_30: "unat (n mod 30 :: u64) = unat n mod 30"
  by (simp add: unat_mod)

lemma align_unclipped:
  assumes "unat n + 32 < unat (m_stop ps)"
  shows "align ps n = n + 32 - n mod 30"
proof -
  from assms unat_u64_le [of "m_stop ps"] have "unat n + unat (32 :: u64) < 18446744073709551615"
    by simp
  then have e: "checkedAdd n 32 = n + 32" by (rule checkedAdd_exact)
  from assms have "\<not> m_stop ps \<le> checkedAdd n 32"
    by (simp add: checkedAdd_ge_iff)
  then show ?thesis
    unfolding align_def Let_def by (simp add: e)
qed

lemma unat_align_unclipped:
  assumes "unat n + 32 < unat (m_stop ps)"
  shows "unat (align ps n) = unat n + 32 - unat n mod 30"
proof -
  from assms unat_u64_le [of "m_stop ps"] have b: "unat n + unat (32 :: u64) < 18446744073709551616"
    by simp
  then have s: "unat (n + 32) = unat n + 32" using unat_add_u64 [of n 32] by simp
  have "unat n mod 30 \<le> unat n" by simp
  then have "n mod 30 \<le> n + 32" by (simp add: word_le_nat_alt s unat_mod_30)
  then have "unat (n + 32 - n mod 30) = unat (n + 32) - unat (n mod 30)"
    by (rule unat_sub)
  then show ?thesis
    by (simp add: align_unclipped [OF assms] s unat_mod_30)
qed

lemma align_nat_form: "(k :: nat) + 32 - k mod 30 = 30 * (k div 30) + 32"
proof -
  have "k = 30 * (k div 30) + k mod 30" by simp
  then show ?thesis by linarith
qed

lemma align_nat_mod: "((k :: nat) + 32 - k mod 30) mod 30 = 2"
  by (simp add: align_nat_form)

section \<open>The aligner\<close>

text \<open>
  C3, as the spec states it, fails: for \<open>n = 0\<close> and \<open>stop = 100\<close> the sum \<open>n + 32\<close> is
  below \<open>stop\<close>, the spec's formula \<open>(n + 32) - ((n + 32) mod 30)\<close> gives 30, which is
  0 modulo 30, and \<open>align\<close> returns 32.
\<close>

theorem align_spec_formula_counterexample:
  "\<not> ((100 :: u64) \<le> 0 + 32) \<and>
   align \<lparr>m_start = 0, m_stop = 100, m_counts = [], m_seconds = 0, m_processed = 0,
          m_percent = 0\<rparr> 0
     \<noteq> (0 + 32) - ((0 + 32) mod 30)"
  by (simp add: align_def checkedAdd_def)

text \<open>
  C3, amended: \<open>align\<close> returns \<open>stop_\<close> if \<open>n + 32\<close> (computed without wrap-around)
  meets or exceeds \<open>stop_\<close>; otherwise it returns \<open>(n + 32) - (n mod 30)\<close>, which is
  congruent to 2 modulo 30.
\<close>

theorem align_value:
  "align ps n =
     (if unat (m_stop ps) \<le> unat n + 32 then m_stop ps else n + 32 - n mod 30) \<and>
   (unat n + 32 < unat (m_stop ps) \<longrightarrow>
      unat (align ps n) = unat n + 32 - unat n mod 30 \<and> unat (align ps n) mod 30 = 2)"
proof (cases "unat (m_stop ps) \<le> unat n + 32")
  case True
  then show ?thesis by (simp add: align_clipped)
next
  case False
  then have lt: "unat n + 32 < unat (m_stop ps)" by simp
  have "unat (align ps n) mod 30 = 2"
    unfolding unat_align_unclipped [OF lt] by (rule align_nat_mod)
  moreover note align_unclipped [OF lt] unat_align_unclipped [OF lt]
  ultimately show ?thesis using False by simp
qed

theorem align_value_witness:
  "align \<lparr>m_start = 0, m_stop = 1000, m_counts = [], m_seconds = 0, m_processed = 0,
          m_percent = 0\<rparr> 47 = 62 \<and>
   unat (62 :: u64) mod 30 = 2 \<and>
   align \<lparr>m_start = 0, m_stop = 70, m_counts = [], m_seconds = 0, m_processed = 0,
          m_percent = 0\<rparr> 47 = 70"
  using align_value [of "\<lparr>m_start = 0, m_stop = 1000, m_counts = [], m_seconds = 0,
                           m_processed = 0, m_percent = 0\<rparr>" 47]
        align_value [of "\<lparr>m_start = 0, m_stop = 70, m_counts = [], m_seconds = 0,
                           m_processed = 0, m_percent = 0\<rparr>" 47]
  by simp

text \<open>
  Where the clip does not apply: if \<open>n + 32 < stop_\<close> then \<open>align n\<close> lies in
  \<open>[n + 3, n + 32]\<close> and is congruent to 2 modulo 30, so \<open>align n + 1\<close> is greater than
  \<open>n\<close>; and a task whose tentative start \<open>start_ + i * threadDistance\<close> is such an \<open>n\<close>
  above \<open>start_\<close> starts its chunk at \<open>align n + 1\<close>, above \<open>n\<close>.
\<close>

lemma align_advances:
  assumes "unat n + 32 < unat (m_stop ps)"
  shows "unat n + 3 \<le> unat (align ps n) \<and> unat (align ps n) \<le> unat n + 32 \<and>
         unat (align ps n) mod 30 = 2 \<and> n < align ps n + 1 \<and>
         (n = m_start ps + i * threadDistance \<and> m_start ps < n \<longrightarrow>
            fst (chunk ps threadDistance i) = align ps n + 1 \<and>
            n < fst (chunk ps threadDistance i))"
proof -
  have v: "unat (align ps n) = unat n + 32 - unat n mod 30"
    by (rule unat_align_unclipped [OF assms])
  have m: "unat n mod 30 < 30" by simp
  have lo: "unat n + 3 \<le> unat (align ps n)" unfolding v using m by linarith
  have hi: "unat (align ps n) \<le> unat n + 32" using v by simp
  have md: "unat (align ps n) mod 30 = 2" unfolding v by (rule align_nat_mod)
  from hi assms unat_u64_le [of "m_stop ps"]
  have "unat (align ps n) + unat (1 :: u64) < 18446744073709551616" by simp
  then have "unat (align ps n + 1) = unat (align ps n) + 1"
    using unat_add_u64 [of "align ps n" 1] by simp
  with lo have adv: "n < align ps n + 1"
    by (simp add: word_less_nat_alt)
  have ch: "n = m_start ps + i * threadDistance \<and> m_start ps < n \<longrightarrow>
            fst (chunk ps threadDistance i) = align ps n + 1 \<and>
            n < fst (chunk ps threadDistance i)"
  proof (intro impI, elim conjE)
    assume e: "n = m_start ps + i * threadDistance" and g: "m_start ps < n"
    from g have "fst (chunk ps threadDistance i) = align ps n + 1"
      unfolding e by (simp add: chunk_def Let_def)
    with adv show "fst (chunk ps threadDistance i) = align ps n + 1 \<and>
                   n < fst (chunk ps threadDistance i)"
      by simp
  qed
  from lo hi md adv ch show ?thesis by (intro conjI)
qed

lemma align_advances_example:
  "unat (47 :: u64) + 3 \<le> unat (62 :: u64) \<and> unat (62 :: u64) \<le> unat (47 :: u64) + 32 \<and>
   fst (chunk \<lparr>m_start = 17, m_stop = 1000, m_counts = [], m_seconds = 0, m_processed = 0,
               m_percent = 0\<rparr> 30 1) = 63"
  using align_advances [of 47 "\<lparr>m_start = 17, m_stop = 1000, m_counts = [], m_seconds = 0,
                           m_processed = 0, m_percent = 0\<rparr>" 1 30]
  by (simp add: align_def checkedAdd_def)

text \<open>
  Where the clip applies and \<open>stop_\<close> is below the largest 64-bit value, \<open>align n + 1\<close> is
  \<open>stop_ + 1\<close>, still above a tentative start \<open>n\<close> inside the interval.
\<close>

lemma rederived_start_advances:
  assumes n: "unat n \<le> unat (m_stop ps)" and s: "unat (m_stop ps) < 18446744073709551615"
  shows "n < align ps n + 1"
proof (cases "unat (m_stop ps) \<le> unat n + 32")
  case True
  then have a: "align ps n = m_stop ps" by (rule align_clipped)
  from s have "unat (m_stop ps) + unat (1 :: u64) < 18446744073709551616" by simp
  then have "unat (m_stop ps + 1) = unat (m_stop ps) + unat (1 :: u64)" by (rule unat_add_u64)
  with n show ?thesis by (simp add: a word_less_nat_alt)
next
  case False
  then have "unat n + 32 < unat (m_stop ps)" by simp
  then show ?thesis using align_advances [of n ps] by simp
qed

lemma isqrt_nat_bounds: "isqrt_nat n * isqrt_nat n \<le> n \<and> n < (isqrt_nat n + 1) * (isqrt_nat n + 1)"
proof (induction n rule: isqrt_nat.induct)
  case (1 n)
  show ?case
  proof (cases "n < 2")
    case True
    then have "isqrt_nat n = n" by (subst isqrt_nat.simps) simp
    moreover from True have "n = 0 \<or> n = 1" by linarith
    ultimately show ?thesis by auto
  next
    case False
    define r where "r = isqrt_nat (n div 4)"
    from 1 [OF False] have ih: "r * r \<le> n div 4" "n div 4 < (r + 1) * (r + 1)"
      by (simp_all add: r_def)
    have lo: "(2 * r) * (2 * r) \<le> n"
    proof -
      have "(2 * r) * (2 * r) = 4 * (r * r)" by simp
      also have "\<dots> \<le> 4 * (n div 4)" using ih(1) by simp
      also have "\<dots> \<le> n" by simp
      finally show ?thesis .
    qed
    have hi: "n < (2 * r + 2) * (2 * r + 2)"
    proof -
      from ih(2) have "n div 4 + 1 \<le> (r + 1) * (r + 1)" by simp
      then have "4 * (n div 4 + 1) \<le> 4 * ((r + 1) * (r + 1))" by simp
      moreover have "n < 4 * (n div 4 + 1)" by simp
      moreover have "4 * ((r + 1) * (r + 1)) = (2 * r + 2) * (2 * r + 2)" by (simp add: algebra_simps)
      ultimately show ?thesis by linarith
    qed
    have e: "isqrt_nat n = (if (2 * r + 1) * (2 * r + 1) \<le> n then 2 * r + 1 else 2 * r)"
      using False by (subst isqrt_nat.simps) (simp add: r_def Let_def)
    show ?thesis
    proof (cases "(2 * r + 1) * (2 * r + 1) \<le> n")
      case True
      with e have "isqrt_nat n = 2 * r + 1" by simp
      with True hi show ?thesis by (simp add: algebra_simps)
    next
      case False
      with e have "isqrt_nat n = 2 * r" by simp
      with False lo show ?thesis by (simp add: algebra_simps)
    qed
  qed
qed

lemma isqrt_nat_u64: "isqrt_nat (unat (x :: u64)) < 4294967296"
proof (rule ccontr)
  assume "\<not> isqrt_nat (unat x) < 4294967296"
  then have g: "4294967296 \<le> isqrt_nat (unat x)" by simp
  have "(4294967296 :: nat) * 4294967296 \<le> isqrt_nat (unat x) * isqrt_nat (unat x)"
    by (rule mult_le_mono [OF g g])
  also have "\<dots> \<le> unat x" using isqrt_nat_bounds [of "unat x"] by simp
  finally show False using unat_u64_le [of x] by simp
qed

lemma unat_isqrt: "unat (isqrt x) = isqrt_nat (unat x)"
proof -
  have "isqrt_nat (unat x) < 2 ^ LENGTH(64)" using isqrt_nat_u64 [of x] by simp
  then show ?thesis unfolding isqrt_def by (simp add: unat_of_nat)
qed

lemma sint_pos:
  assumes "0 <s (t :: cint)"
  shows "0 < sint t" and "sint t < 2147483648"
  using assms sint_lt [of t] by (simp_all add: word_sless_alt)

lemma unat_scast_pos:
  assumes "0 <s (t :: cint)"
  shows "unat (scast t :: u64) = nat (sint t)"
proof -
  from sint_pos [OF assms] have "0 \<le> sint t" and "sint t < 2 ^ 64"
    by simp_all
  then have "take_bit 64 (sint t) = sint t"
    by (rule take_bit_int_eq_self)
  moreover have "unat (scast t :: u64) = nat (take_bit 64 (sint t))"
    unfolding scast_eq unsigned_of_int by simp
  ultimately show ?thesis by simp
qed

lemma unat_cint_pos:
  assumes "0 <s (t :: cint)"
  shows "unat t = nat (sint t)"
proof -
  from sint_pos [OF assms] have "0 \<le> sint t" and "sint t < 2 ^ 32"
    by simp_all
  then have "take_bit 32 (sint t) = sint t"
    by (rule take_bit_int_eq_self)
  then have "uint t = sint t" using uint_sint [of t] by simp
  then show ?thesis by (metis unat_eq_nat_uint)
qed

lemma sint_ucast_small:
  assumes "unat (w :: u64) < 2147483648"
  shows "sint (ucast w :: cint) = int (unat w)"
proof -
  have "unat (ucast w :: cint) = take_bit 32 (unat w)"
    by (simp add: unsigned_ucast_eq)
  also have "\<dots> = unat w"
  proof (rule take_bit_nat_eq_self)
    from assms show "unat w < 2 ^ 32" by simp
  qed
  finally have u: "uint (ucast w :: cint) = int (unat w)" by (simp only: uint_nat)
  have "sint (ucast w :: cint) = signed_take_bit 31 (uint (ucast w :: cint))"
    using sint_uint [of "ucast w :: cint"] by simp
  also have "\<dots> = int (unat w)" unfolding u
  proof (rule signed_take_bit_int_eq_self)
    have "- (2 ^ 31) \<le> (0 :: int)" by simp
    also have "(0 :: int) \<le> int (unat w)" by (rule of_nat_0_le_iff)
    finally show "- (2 ^ 31) \<le> int (unat w)" .
    from assms have "int (unat w) < int 2147483648" by (simp only: of_nat_less_iff)
    then show "int (unat w) < 2 ^ 31" by simp
  qed
  finally show ?thesis .
qed

lemma unat_ucast_up: "unat (ucast (c :: cint) :: u64) = unat c"
proof -
  have "unat c < 2 ^ 32" using unsigned_less [of c, where 'a = nat] by simp
  then show ?thesis by (simp add: unsigned_ucast_eq take_bit_nat_eq_self)
qed

lemma unat_threads5: "unat (ucast (t * 5 :: cint) :: u64) \<le> unat t * 5"
proof -
  have "unat (t * 5) = (unat t * unat (5 :: cint)) mod 2 ^ LENGTH(32)"
    by (rule unat_word_ariths)
  then have "unat (t * 5) \<le> unat t * 5" by simp
  then show ?thesis by (simp add: unat_ucast_up)
qed

lemma unat_max_u64w: "unat (max a b :: u64) = max (unat a) (unat b)"
  by (simp add: max_def word_le_nat_alt)

lemma unat_min_u64w: "unat (min a b :: u64) = min (unat a) (unat b)"
  by (simp add: min_def word_le_nat_alt)

lemma unat_inBetween: "unat (inBetween lo x hi) = clamp (unat x) (unat lo) (unat hi)"
  by (simp add: inBetween_def clamp_def word_less_nat_alt)

lemma unat_getDistance:
  "m_start ps \<le> m_stop ps \<Longrightarrow> unat (getDistance ps) = unat (m_stop ps) - unat (m_start ps)"
  unfolding getDistance_def by (rule unat_sub)

lemma unat_threshold:
  "unat (max (MIN_THREAD_DISTANCE cfg) (isqrt (m_stop ps) div 5)) =
     max (unat (MIN_THREAD_DISTANCE cfg)) (isqrt_nat (unat (m_stop ps)) div 5)"
  by (simp add: unat_max_u64w unat_div unat_isqrt)

lemma clamp_1_le: "0 < n \<Longrightarrow> clamp x 1 n \<le> n \<and> 1 \<le> clamp x 1 n"
  by (simp add: clamp_def)

lemma sint_idealNumThreads:
  assumes n: "0 <s m_numThreads ps" and le: "m_start ps \<le> m_stop ps"
  shows "sint (idealNumThreads cfg ps) =
           int (clamp ((unat (m_stop ps) - unat (m_start ps)) div
                         max (unat (MIN_THREAD_DISTANCE cfg)) (isqrt_nat (unat (m_stop ps)) div 5))
                  1 (nat (sint (m_numThreads ps))))"
proof -
  define threshold where "threshold = max (MIN_THREAD_DISTANCE cfg) (isqrt (m_stop ps) div 5)"
  define w where "w = inBetween 1 (getDistance ps div threshold) (scast (m_numThreads ps))"
  have N: "0 < nat (sint (m_numThreads ps))" "nat (sint (m_numThreads ps)) < 2147483648"
    using sint_pos [OF n] by simp_all
  have u: "unat w = clamp ((unat (m_stop ps) - unat (m_start ps)) div
                         max (unat (MIN_THREAD_DISTANCE cfg)) (isqrt_nat (unat (m_stop ps)) div 5))
                  1 (nat (sint (m_numThreads ps)))"
    unfolding w_def threshold_def
    by (simp add: unat_inBetween unat_div unat_threshold unat_getDistance [OF le]
        unat_scast_pos [OF n])
  have "unat w \<le> nat (sint (m_numThreads ps))"
    unfolding u using clamp_1_le [OF N(1)] by simp
  with N(2) have "unat w < 2147483648" by linarith
  then have "sint (ucast w :: cint) = int (unat w)" by (rule sint_ucast_small)
  moreover from le have "\<not> m_stop ps < m_start ps" by (simp only: not_less)
  then have "idealNumThreads cfg ps = ucast w"
    by (simp add: idealNumThreads_def Let_def w_def threshold_def)
  ultimately show ?thesis by (simp only: u)
qed

lemma word_div_small: "(x :: u64) < y \<Longrightarrow> x div y = 0"
  by (simp add: word_unat_eq_iff unat_div word_less_nat_alt)

section \<open>The planner\<close>

text \<open>
  C7: \<open>idealNumThreads\<close> returns 1 if \<open>start_ > stop_\<close>; otherwise it returns
  \<open>clamp(distance / threshold, 1, numThreads_)\<close> with
  \<open>threshold = max(MIN_THREAD_DISTANCE, isqrt(stop_) / 5)\<close>, which is the spec's
  \<open>idealThreadCount\<close>; and it returns 1 whenever \<open>distance < threshold\<close>. The thread
  count \<open>numThreads_\<close> is at least 1, as \<open>setNumThreads\<close> leaves it, and
  \<open>MIN_THREAD_DISTANCE\<close> is not zero, so the division is defined.
\<close>

theorem idealNumThreads_spec:
  assumes n: "0 <s m_numThreads ps" and m: "0 < MIN_THREAD_DISTANCE cfg"
  shows "sint (idealNumThreads cfg ps) =
           int (spec_idealThreadCount (unat (MIN_THREAD_DISTANCE cfg)) (unat (m_start ps))
                  (unat (m_stop ps)) (nat (sint (m_numThreads ps)))) \<and>
         (m_stop ps < m_start ps \<longrightarrow> idealNumThreads cfg ps = 1) \<and>
         (m_start ps \<le> m_stop ps \<and>
          getDistance ps < max (MIN_THREAD_DISTANCE cfg) (isqrt (m_stop ps) div 5) \<longrightarrow>
            idealNumThreads cfg ps = 1)"
proof (intro conjI impI)
  show "sint (idealNumThreads cfg ps) =
           int (spec_idealThreadCount (unat (MIN_THREAD_DISTANCE cfg)) (unat (m_start ps))
                  (unat (m_stop ps)) (nat (sint (m_numThreads ps))))"
  proof (cases "m_start ps \<le> m_stop ps")
    case True
    then have "\<not> unat (m_stop ps) < unat (m_start ps)" by (simp add: word_le_nat_alt)
    then show ?thesis
      unfolding sint_idealNumThreads [OF n True] spec_idealThreadCount_def Let_def by simp
  next
    case False
    then have "unat (m_stop ps) < unat (m_start ps)" by (simp add: word_le_nat_alt)
    moreover from False have "m_stop ps < m_start ps" by (simp only: not_le)
    then have "idealNumThreads cfg ps = 1" by (simp add: idealNumThreads_def)
    ultimately show ?thesis by (simp add: spec_idealThreadCount_def)
  qed
next
  assume "m_stop ps < m_start ps"
  then show "idealNumThreads cfg ps = 1" by (simp add: idealNumThreads_def)
next
  assume a: "m_start ps \<le> m_stop ps \<and>
          getDistance ps < max (MIN_THREAD_DISTANCE cfg) (isqrt (m_stop ps) div 5)"
  then have "getDistance ps div max (MIN_THREAD_DISTANCE cfg) (isqrt (m_stop ps) div 5) = 0"
    by (simp add: word_div_small)
  moreover from a have "\<not> m_stop ps < m_start ps" by (simp only: not_less)
  ultimately show "idealNumThreads cfg ps = 1"
    by (simp add: idealNumThreads_def Let_def inBetween_def)
qed

theorem idealNumThreads_spec_witness:
  "sint (idealNumThreads \<lparr>MIN_THREAD_DISTANCE = 100, MAX_THREAD_DISTANCE = 1000\<rparr>
           \<lparr>m_start = 10, m_stop = 1000, m_counts = [], m_seconds = 0, m_processed = 0,
            m_percent = 0, m_shm = None, m_numThreads = 4\<rparr>) = 4 \<and>
   idealNumThreads \<lparr>MIN_THREAD_DISTANCE = 100, MAX_THREAD_DISTANCE = 1000\<rparr>
           \<lparr>m_start = 10, m_stop = 5, m_counts = [], m_seconds = 0, m_processed = 0,
            m_percent = 0, m_shm = None, m_numThreads = 4\<rparr> = 1 \<and>
   idealNumThreads \<lparr>MIN_THREAD_DISTANCE = 100, MAX_THREAD_DISTANCE = 1000\<rparr>
           \<lparr>m_start = 10, m_stop = 50, m_counts = [], m_seconds = 0, m_processed = 0,
            m_percent = 0, m_shm = None, m_numThreads = 4\<rparr> = 1"
proof -
  have i: "isqrt_nat 1000 = 31" "isqrt 50 = 7"
    by (simp_all add: isqrt_def isqrt_nat.simps)
  show ?thesis
    using idealNumThreads_spec [of "\<lparr>m_start = 10, m_stop = 1000, m_counts = [], m_seconds = 0,
              m_processed = 0, m_percent = 0, m_shm = None, m_numThreads = 4\<rparr>"
            "\<lparr>MIN_THREAD_DISTANCE = 100, MAX_THREAD_DISTANCE = 1000\<rparr>"]
          idealNumThreads_spec [of "\<lparr>m_start = 10, m_stop = 5, m_counts = [], m_seconds = 0,
              m_processed = 0, m_percent = 0, m_shm = None, m_numThreads = 4\<rparr>"
            "\<lparr>MIN_THREAD_DISTANCE = 100, MAX_THREAD_DISTANCE = 1000\<rparr>"]
          idealNumThreads_spec [of "\<lparr>m_start = 10, m_stop = 50, m_counts = [], m_seconds = 0,
              m_processed = 0, m_percent = 0, m_shm = None, m_numThreads = 4\<rparr>"
            "\<lparr>MIN_THREAD_DISTANCE = 100, MAX_THREAD_DISTANCE = 1000\<rparr>"]
    by (simp add: spec_idealThreadCount_def clamp_def i getDistance_def word_sless_alt)
qed

section \<open>The empty interval\<close>

text \<open>
  C8: a run with \<open>start_ > stop_\<close> is not an error: it returns with all six counters
  zero and puts no thread in the pool.
\<close>

theorem sieve_empty_interval:
  assumes "m_stop ps < m_start ps"
  shows "sieve cfg E elapsed sched ps = Some (ps\<lparr>m_counts := [0, 0, 0, 0, 0, 0]\<rparr>, 0)"
  using assms by (simp add: sieve_def reset_def zeros_def Let_def numeral_eq_Suc)

theorem sieve_empty_interval_witness:
  "sieve \<lparr>MIN_THREAD_DISTANCE = 100, MAX_THREAD_DISTANCE = 1000\<rparr> (\<lambda>a b. [1, 1, 1, 1, 1, 1]) 0 []
     \<lparr>m_start = 101, m_stop = 100, m_counts = [7, 7], m_seconds = 0, m_processed = 0,
      m_percent = 0, m_shm = None, m_numThreads = 4\<rparr>
   = Some (\<lparr>m_start = 101, m_stop = 100, m_counts = [0, 0, 0, 0, 0, 0], m_seconds = 0,
            m_processed = 0, m_percent = 0, m_shm = None, m_numThreads = 4\<rparr>, 0)"
  using sieve_empty_interval [of "\<lparr>m_start = 101, m_stop = 100, m_counts = [7, 7], m_seconds = 0,
           m_processed = 0, m_percent = 0, m_shm = None, m_numThreads = 4\<rparr>"
         "\<lparr>MIN_THREAD_DISTANCE = 100, MAX_THREAD_DISTANCE = 1000\<rparr>"
         "\<lambda>a b. [1, 1, 1, 1, 1, 1]" 0 "[]"]
  by simp

section \<open>Status updates\<close>

text \<open>
  C6, as the spec states it, fails: an update that gets the lock writes only the
  percentage into the sink. Here the sink holds counts and seconds that differ from
  the object's, the update is applied (it returns true), and they still differ.
\<close>

theorem updateStatus_sink_counts_counterexample:
  "snd (updateStatus
          \<lparr>m_start = 0, m_stop = 100, m_counts = [4, 1, 0, 0, 0, 0], m_seconds = 2,
           m_processed = 0, m_percent = 0,
           m_shm = Some \<lparr>shm_counts = [0, 0, 0, 0, 0, 0], shm_status = 0, shm_seconds = 0\<rparr>,
           m_numThreads = 1\<rparr> False 10 False) \<and>
   map_option shm_counts (m_shm (fst (updateStatus
          \<lparr>m_start = 0, m_stop = 100, m_counts = [4, 1, 0, 0, 0, 0], m_seconds = 2,
           m_processed = 0, m_percent = 0,
           m_shm = Some \<lparr>shm_counts = [0, 0, 0, 0, 0, 0], shm_status = 0, shm_seconds = 0\<rparr>,
           m_numThreads = 1\<rparr> False 10 False)))
     \<noteq> Some [4, 1, 0, 0, 0, 0] \<and>
   map_option shm_seconds (m_shm (fst (updateStatus
          \<lparr>m_start = 0, m_stop = 100, m_counts = [4, 1, 0, 0, 0, 0], m_seconds = 2,
           m_processed = 0, m_percent = 0,
           m_shm = Some \<lparr>shm_counts = [0, 0, 0, 0, 0, 0], shm_status = 0, shm_seconds = 0\<rparr>,
           m_numThreads = 1\<rparr> False 10 False)))
     \<noteq> Some 2"
  by (simp add: updateStatus_def LockGuard_isSet_def PrimeSieve_updateStatus_def getStatus_def
      Let_def)

text \<open>
  C6, amended: when the status lock is acquired (\<open>wait\<close> is true, or the lock is free),
  \<open>updateStatus\<close> adds \<open>processed\<close> to the running total, recomputes the percentage,
  writes the percentage, and nothing else, into the sink if one is attached, and
  returns true; when \<open>wait\<close> is false and the lock is busy it returns false and leaves
  the object and the sink as they were.
\<close>

theorem updateStatus_effect:
  "(wait \<or> \<not> busy \<longrightarrow>
      snd (updateStatus ps busy n wait) \<and>
      m_processed (fst (updateStatus ps busy n wait)) = m_processed ps + n \<and>
      m_percent (fst (updateStatus ps busy n wait)) =
        100 * real (unat (m_processed ps + n)) / real (unat (getDistance ps)) \<and>
      m_shm (fst (updateStatus ps busy n wait)) =
        map_option (\<lambda>shm. shm\<lparr>shm_status := m_percent (fst (updateStatus ps busy n wait))\<rparr>)
          (m_shm ps) \<and>
      m_counts (fst (updateStatus ps busy n wait)) = m_counts ps \<and>
      m_seconds (fst (updateStatus ps busy n wait)) = m_seconds ps) \<and>
   (\<not> wait \<and> busy \<longrightarrow> updateStatus ps busy n wait = (ps, False))"
  by (cases "m_shm ps")
     (simp_all add: updateStatus_def LockGuard_isSet_def PrimeSieve_updateStatus_def
        getStatus_def getDistance_def Let_def)

theorem updateStatus_effect_witness:
  "updateStatus
     \<lparr>m_start = 0, m_stop = 100, m_counts = [4, 1, 0, 0, 0, 0], m_seconds = 2,
      m_processed = 0, m_percent = 0,
      m_shm = Some \<lparr>shm_counts = [0, 0, 0, 0, 0, 0], shm_status = 0, shm_seconds = 0\<rparr>,
      m_numThreads = 1\<rparr> True 10 False
   = (\<lparr>m_start = 0, m_stop = 100, m_counts = [4, 1, 0, 0, 0, 0], m_seconds = 2,
      m_processed = 0, m_percent = 0,
      m_shm = Some \<lparr>shm_counts = [0, 0, 0, 0, 0, 0], shm_status = 0, shm_seconds = 0\<rparr>,
      m_numThreads = 1\<rparr>, False) \<and>
   m_shm (fst (updateStatus
     \<lparr>m_start = 0, m_stop = 100, m_counts = [4, 1, 0, 0, 0, 0], m_seconds = 2,
      m_processed = 0, m_percent = 0,
      m_shm = Some \<lparr>shm_counts = [0, 0, 0, 0, 0, 0], shm_status = 0, shm_seconds = 0\<rparr>,
      m_numThreads = 1\<rparr> True 10 True))
   = Some \<lparr>shm_counts = [0, 0, 0, 0, 0, 0], shm_status = 10, shm_seconds = 0\<rparr>"
  using updateStatus_effect [of False True
      "\<lparr>m_start = 0, m_stop = 100, m_counts = [4, 1, 0, 0, 0, 0], m_seconds = 2,
        m_processed = 0, m_percent = 0,
        m_shm = Some \<lparr>shm_counts = [0, 0, 0, 0, 0, 0], shm_status = 0, shm_seconds = 0\<rparr>,
        m_numThreads = 1\<rparr>" 10]
    updateStatus_effect [of True True
      "\<lparr>m_start = 0, m_stop = 100, m_counts = [4, 1, 0, 0, 0, 0], m_seconds = 2,
        m_processed = 0, m_percent = 0,
        m_shm = Some \<lparr>shm_counts = [0, 0, 0, 0, 0, 0], shm_status = 0, shm_seconds = 0\<rparr>,
        m_numThreads = 1\<rparr>" 10]
  by (simp add: getDistance_def)

lemma round30_nat: "(k :: nat) + (30 - k mod 30) = 30 * (k div 30 + 1)"
proof -
  define m where "m = k mod 30"
  define q where "q = k div 30"
  have k: "k = 30 * q + m" by (simp add: m_def q_def)
  have "m < 30" by (simp add: m_def)
  then have "30 * q + m + (30 - m) = 30 * (q + 1)" by simp
  then have "k + (30 - m) = 30 * (q + 1)" by (simp only: k [symmetric])
  then show ?thesis by (simp only: m_def q_def)
qed

lemma round30_nat_bounds:
  "k < (k :: nat) + (30 - k mod 30)" "k + (30 - k mod 30) \<le> k + 30"
  "(k + (30 - k mod 30)) mod 30 = 0"
proof -
  have "k mod 30 < 30" by simp
  then show "k < k + (30 - k mod 30)" by linarith
  show "k + (30 - k mod 30) \<le> k + 30" by simp
  show "(k + (30 - k mod 30)) mod 30 = 0" unfolding round30_nat by simp
qed

lemma unat_round30:
  assumes "unat (x :: u64) + 30 < 18446744073709551616"
  shows "unat (x + (30 - x mod 30)) = unat x + (30 - unat x mod 30)"
proof -
  have m: "unat (x mod 30) = unat x mod 30" by (rule unat_mod_30)
  have "unat x mod 30 < 30" by simp
  then have "x mod 30 \<le> 30" by (simp add: word_le_nat_alt m)
  then have "unat (30 - x mod 30) = unat (30 :: u64) - unat (x mod 30)" by (rule unat_sub)
  then have s: "unat (30 - x mod 30) = 30 - unat x mod 30" by (simp add: m)
  have "unat x + unat (30 - x mod 30) < 18446744073709551616"
    unfolding s using assms by linarith
  then have "unat (x + (30 - x mod 30)) = unat x + unat (30 - x mod 30)"
    by (rule unat_add_u64)
  then show ?thesis by (simp only: s)
qed

lemma fallback_bound:
  assumes "(d :: nat) div c < 5 * t" and "0 < c" and "0 < t"
  shows "d div t < 5 * c"
proof -
  from assms(1,2) have "d < 5 * t * c" by (simp add: div_less_iff_less_mult)
  then have "d < 5 * c * t" by (simp add: mult.commute mult.left_commute)
  with assms(3) show ?thesis by (simp add: div_less_iff_less_mult)
qed

lemma clamp_bounds: "lo \<le> hi \<Longrightarrow> lo \<le> clamp x lo hi \<and> clamp x lo hi \<le> hi"
  by (simp add: clamp_def)

lemma unat_balanced: "unat (isqrt x * 1000) = isqrt_nat (unat x) * 1000"
proof -
  from isqrt_nat_u64 [of x] have "isqrt_nat (unat x) * 1000 < 4294967296 * 1000" by simp
  then have "unat (isqrt x) * unat (1000 :: u64) < 2 ^ LENGTH(64)"
    by (simp add: unat_isqrt)
  then have "unat (isqrt x * 1000) = unat (isqrt x) * unat (1000 :: u64)"
    by (simp only: unat_mult_lem)
  then show ?thesis by (simp add: unat_isqrt)
qed

lemma unat_threads5_mod:
  "unat (ucast (t * 5 :: cint) :: u64) = (unat t * 5) mod 4294967296"
proof -
  have "unat (t * 5) = (unat t * unat (5 :: cint)) mod 2 ^ LENGTH(32)"
    by (rule unat_word_ariths)
  then show ?thesis by (simp add: unat_ucast_up)
qed

lemma round30_least:
  assumes "m mod 30 = 0" and "k < (m :: nat)"
  shows "k + (30 - k mod 30) \<le> m"
proof -
  from assms(1) obtain j where m: "m = 30 * j" by (auto simp add: mod_eq_0_iff_dvd)
  from assms(2) have "k div 30 < j" unfolding m by (simp add: div_less_iff_less_mult mult.commute)
  then have "k div 30 + 1 \<le> j" by simp
  then have "30 * (k div 30 + 1) \<le> 30 * j" by (rule mult_le_mono2)
  then show ?thesis unfolding m round30_nat .
qed

lemma getThreadDistance_unrounded:
  fixes threads :: cint
  assumes mn: "0 < MIN_THREAD_DISTANCE cfg"
    and mx: "MIN_THREAD_DISTANCE cfg \<le> MAX_THREAD_DISTANCE cfg"
    and t: "0 <s threads"
  obtains x where "getThreadDistance cfg ps threads = x + (30 - x mod 30)"
    and "unat x = unrounded_distance (unat (MIN_THREAD_DISTANCE cfg))
           (unat (MAX_THREAD_DISTANCE cfg)) (unat (getDistance ps)) (unat (m_stop ps))
           (nat (sint threads))"
    and "unat (MIN_THREAD_DISTANCE cfg) \<le> unat x"
    and "unat x \<le>
           max (unat (MAX_THREAD_DISTANCE cfg)) (unat (getDistance ps) div nat (sint threads))"
    and "unat x \<le> 5 * unat (MAX_THREAD_DISTANCE cfg)"
proof -
  define T where "T = nat (sint threads)"
  define u where "u = getDistance ps div scast threads"
  define td where "td = inBetween (MIN_THREAD_DISTANCE cfg) (min (isqrt (m_stop ps) * 1000) u)
              (MAX_THREAD_DISTANCE cfg)"
  define x where "x = (if getDistance ps div td < ucast (threads * 5)
              then max (MIN_THREAD_DISTANCE cfg) u else td)"
  have T: "0 < T" using sint_pos [OF t] by (simp add: T_def)
  have uu: "unat u = unat (getDistance ps) div T"
    by (simp add: u_def T_def unat_div unat_scast_pos [OF t])
  from mn have mn': "0 < unat (MIN_THREAD_DISTANCE cfg)" by (simp add: word_less_nat_alt)
  from mx have mx': "unat (MIN_THREAD_DISTANCE cfg) \<le> unat (MAX_THREAD_DISTANCE cfg)"
    by (simp add: word_le_nat_alt)
  have tdv: "unat td = clamp (min (isqrt_nat (unat (m_stop ps)) * 1000)
                                (unat (getDistance ps) div T))
               (unat (MIN_THREAD_DISTANCE cfg)) (unat (MAX_THREAD_DISTANCE cfg))"
    by (simp add: td_def unat_inBetween unat_min_u64w unat_balanced uu)
  have tdb: "unat (MIN_THREAD_DISTANCE cfg) \<le> unat td" "unat td \<le> unat (MAX_THREAD_DISTANCE cfg)"
    using clamp_bounds [OF mx'] by (simp_all add: td_def unat_inBetween)
  have tdp: "0 < unat td" using mn' tdb(1) by linarith
  have e: "getThreadDistance cfg ps threads = x + (30 - x mod 30)"
    by (simp add: getThreadDistance_def Let_def u_def td_def x_def)
  have c: "(getDistance ps div td < ucast (threads * 5)) =
           (unat (getDistance ps) div unat td < (T * 5) mod 4294967296)"
    by (simp add: word_less_nat_alt unat_div unat_threads5_mod unat_cint_pos [OF t] T_def)
  have xv: "unat x = (if unat (getDistance ps) div unat td < (T * 5) mod 4294967296
                      then max (unat (MIN_THREAD_DISTANCE cfg)) (unat (getDistance ps) div T)
                      else unat td)"
    unfolding x_def c by (simp add: unat_max_u64w uu)
  have 0: "unat x = unrounded_distance (unat (MIN_THREAD_DISTANCE cfg))
           (unat (MAX_THREAD_DISTANCE cfg)) (unat (getDistance ps)) (unat (m_stop ps))
           (nat (sint threads))"
    unfolding xv tdv unrounded_distance_def Let_def T_def ..
  have 1: "unat (MIN_THREAD_DISTANCE cfg) \<le> unat x"
    unfolding xv using tdb(1) by simp
  have "unat x = max (unat (MIN_THREAD_DISTANCE cfg)) (unat u) \<or> unat x = unat td"
    unfolding xv uu by simp
  with tdb(2) mx' have "unat x \<le> max (unat (MAX_THREAD_DISTANCE cfg)) (unat u)"
    by (auto simp add: max_def)
  then have 2: "unat x \<le>
           max (unat (MAX_THREAD_DISTANCE cfg)) (unat (getDistance ps) div nat (sint threads))"
    by (simp only: uu T_def)
  have 3: "unat x \<le> 5 * unat (MAX_THREAD_DISTANCE cfg)"
  proof (cases "unat (getDistance ps) div unat td < (T * 5) mod 4294967296")
    case True
    have "(T * 5) mod 4294967296 \<le> 5 * T" by simp
    with True have "unat (getDistance ps) div unat td < 5 * T" by linarith
    then have "unat (getDistance ps) div T < 5 * unat td"
      using tdp T by (rule fallback_bound)
    with tdb(2) have "unat (getDistance ps) div T \<le> 5 * unat (MAX_THREAD_DISTANCE cfg)"
      by linarith
    with True mx' show ?thesis unfolding xv by simp
  next
    case False
    with tdb(2) show ?thesis unfolding xv by simp
  qed
  from e 0 1 2 3 show thesis by (rule that)
qed

text \<open>
  C4, as the spec states it, fails: with \<open>MIN_THREAD_DISTANCE = 1e7\<close> and
  \<open>MAX_THREAD_DISTANCE = 2e10\<close>, the interval \<open>[0, 2^64 - 1]\<close> and two threads, the
  clamp gives \<open>2e10\<close> and the rounding that follows it returns \<open>2e10 + 10\<close>.
\<close>

theorem getThreadDistance_above_max_counterexample:
  "\<not> getThreadDistance \<lparr>MIN_THREAD_DISTANCE = 10000000, MAX_THREAD_DISTANCE = 20000000000\<rparr>
       \<lparr>m_start = 0, m_stop = 18446744073709551615, m_counts = [], m_seconds = 0,
        m_processed = 0, m_percent = 0, m_shm = None, m_numThreads = 2\<rparr> 2
     \<le> MAX_THREAD_DISTANCE \<lparr>MIN_THREAD_DISTANCE = 10000000, MAX_THREAD_DISTANCE = 20000000000\<rparr>"
  by (simp add: getThreadDistance_def isqrt_def isqrt_nat.simps getDistance_def inBetween_def
      Let_def)

text \<open>
  C4, amended: for \<open>threads >= 1\<close>, the value returned by \<open>getThreadDistance(threads)\<close>
  is a positive multiple of 30, namely the least multiple of 30 strictly above the
  chunk length computed before rounding (\<open>unrounded_distance\<close>: the clamp of
  \<open>min(balanced, unbalanced)\<close>, or \<open>max(MIN_THREAD_DISTANCE, unbalanced)\<close> when there are
  fewer than \<open>threads * 5\<close> chunks); it is greater than \<open>MIN_THREAD_DISTANCE\<close> and at
  most 30 more than the larger of \<open>MAX_THREAD_DISTANCE\<close> and \<open>distance / threads\<close>. The
  constants satisfy \<open>0 < MIN_THREAD_DISTANCE <= MAX_THREAD_DISTANCE\<close> and
  \<open>5 * MAX_THREAD_DISTANCE + 30\<close> fits 64 bits.
\<close>

theorem getThreadDistance_multiple_of_30:
  assumes mn: "0 < MIN_THREAD_DISTANCE cfg"
    and mx: "MIN_THREAD_DISTANCE cfg \<le> MAX_THREAD_DISTANCE cfg"
    and b: "5 * unat (MAX_THREAD_DISTANCE cfg) + 30 < 18446744073709551616"
    and t: "0 <s threads"
  shows "unat (getThreadDistance cfg ps threads) mod 30 = 0 \<and>
         0 < getThreadDistance cfg ps threads \<and>
         unat (MIN_THREAD_DISTANCE cfg) < unat (getThreadDistance cfg ps threads) \<and>
         unat (getThreadDistance cfg ps threads) \<le>
           max (unat (MAX_THREAD_DISTANCE cfg)) (unat (getDistance ps) div nat (sint threads)) + 30 \<and>
         unrounded_distance (unat (MIN_THREAD_DISTANCE cfg)) (unat (MAX_THREAD_DISTANCE cfg))
             (unat (getDistance ps)) (unat (m_stop ps)) (nat (sint threads))
           < unat (getThreadDistance cfg ps threads) \<and>
         (\<forall>m. m mod 30 = 0 \<and>
              unrounded_distance (unat (MIN_THREAD_DISTANCE cfg)) (unat (MAX_THREAD_DISTANCE cfg))
                (unat (getDistance ps)) (unat (m_stop ps)) (nat (sint threads)) < m \<longrightarrow>
              unat (getThreadDistance cfg ps threads) \<le> m)"
proof -
  obtain x where e: "getThreadDistance cfg ps threads = x + (30 - x mod 30)"
    and x0: "unat x = unrounded_distance (unat (MIN_THREAD_DISTANCE cfg))
           (unat (MAX_THREAD_DISTANCE cfg)) (unat (getDistance ps)) (unat (m_stop ps))
           (nat (sint threads))"
    and x1: "unat (MIN_THREAD_DISTANCE cfg) \<le> unat x"
    and x2: "unat x \<le>
           max (unat (MAX_THREAD_DISTANCE cfg)) (unat (getDistance ps) div nat (sint threads))"
    and x3: "unat x \<le> 5 * unat (MAX_THREAD_DISTANCE cfg)"
    by (rule getThreadDistance_unrounded [OF mn mx t])
  from x3 b have "unat x + 30 < 18446744073709551616" by linarith
  then have v: "unat (getThreadDistance cfg ps threads) = unat x + (30 - unat x mod 30)"
    unfolding e by (rule unat_round30)
  note rb = round30_nat_bounds [of "unat x"]
  have 1: "unat (getThreadDistance cfg ps threads) mod 30 = 0"
    unfolding v by (rule rb(3))
  have 3: "unat (MIN_THREAD_DISTANCE cfg) < unat (getThreadDistance cfg ps threads)"
    unfolding v using x1 rb(1) by linarith
  then have "0 < unat (getThreadDistance cfg ps threads)" by linarith
  then have 2: "0 < getThreadDistance cfg ps threads" by (simp add: word_less_nat_alt)
  have 4: "unat (getThreadDistance cfg ps threads) \<le>
           max (unat (MAX_THREAD_DISTANCE cfg)) (unat (getDistance ps) div nat (sint threads)) + 30"
    unfolding v using x2 rb(2) by linarith
  have 5: "unat x < unat (getThreadDistance cfg ps threads)"
    unfolding v by (rule rb(1))
  have 6: "\<forall>m. m mod 30 = 0 \<and> unat x < m \<longrightarrow> unat (getThreadDistance cfg ps threads) \<le> m"
  proof (intro allI impI, elim conjE)
    fix m :: nat
    assume "m mod 30 = 0" and "unat x < m"
    then show "unat (getThreadDistance cfg ps threads) \<le> m"
      unfolding v by (rule round30_least)
  qed
  from 1 2 3 4 5 6 show ?thesis unfolding x0 by (intro conjI)
qed

theorem getThreadDistance_multiple_of_30_witness:
  "getThreadDistance \<lparr>MIN_THREAD_DISTANCE = 10000000, MAX_THREAD_DISTANCE = 20000000000\<rparr>
       \<lparr>m_start = 0, m_stop = 1000000000, m_counts = [], m_seconds = 0,
        m_processed = 0, m_percent = 0, m_shm = None, m_numThreads = 4\<rparr> 4 = 31622010 \<and>
   unat (31622010 :: u64) mod 30 = 0 \<and>
   unrounded_distance 10000000 20000000000 1000000000 1000000000 4 = 31622000"
proof -
  have e: "getThreadDistance \<lparr>MIN_THREAD_DISTANCE = 10000000, MAX_THREAD_DISTANCE = 20000000000\<rparr>
       \<lparr>m_start = 0, m_stop = 1000000000, m_counts = [], m_seconds = 0,
        m_processed = 0, m_percent = 0, m_shm = None, m_numThreads = 4\<rparr> 4 = 31622010"
    by (simp add: getThreadDistance_def isqrt_def isqrt_nat.simps getDistance_def inBetween_def
        Let_def)
  have u: "unrounded_distance 10000000 20000000000 1000000000 1000000000 4 = 31622000"
    by (simp add: unrounded_distance_def isqrt_nat.simps clamp_def Let_def)
  have s: "0 <s (4 :: cint)" by (simp add: word_sless_alt)
  show ?thesis
    using getThreadDistance_multiple_of_30 [of "\<lparr>MIN_THREAD_DISTANCE = 10000000, MAX_THREAD_DISTANCE = 20000000000\<rparr>"
       4 "\<lparr>m_start = 0, m_stop = 1000000000, m_counts = [], m_seconds = 0,
        m_processed = 0, m_percent = 0, m_shm = None, m_numThreads = 4\<rparr>"] s
    by (simp add: e u)
qed

section \<open>A run that ends at the largest 64-bit value\<close>

text \<open>
  The interval \<open>[2^64 - 1 - 200000000101, 2^64 - 1]\<close> with two threads,
  \<open>MIN_THREAD_DISTANCE = 1e7\<close> and \<open>MAX_THREAD_DISTANCE = 2e10\<close>: the planner chooses two
  threads, a chunk length of 20000000010 and 11 chunks.
\<close>

lemma plan_at_max:
  "idealNumThreads \<lparr>MIN_THREAD_DISTANCE = 10000000, MAX_THREAD_DISTANCE = 20000000000\<rparr>
     \<lparr>m_start = 18446743873709551514, m_stop = 18446744073709551615, m_counts = cs,
      m_seconds = 0, m_processed = 0, m_percent = 0, m_shm = None, m_numThreads = 2\<rparr> = 2"
  "getThreadDistance \<lparr>MIN_THREAD_DISTANCE = 10000000, MAX_THREAD_DISTANCE = 20000000000\<rparr>
     \<lparr>m_start = 18446743873709551514, m_stop = 18446744073709551615, m_counts = cs,
      m_seconds = 0, m_processed = 0, m_percent = 0, m_shm = None, m_numThreads = 2\<rparr> 2
     = 20000000010"
  "(getDistance \<lparr>m_start = 18446743873709551514, m_stop = 18446744073709551615,
      m_counts = cs, m_seconds = 0, m_processed = 0, m_percent = 0, m_shm = None,
      m_numThreads = 2\<rparr> - 1) div 20000000010 + 1 = (11 :: u64)"
  by (simp_all add: idealNumThreads_def getThreadDistance_def isqrt_def isqrt_nat.simps
      getDistance_def inBetween_def Let_def)

lemma chunks_at_max:
  "chunks \<lparr>m_start = 18446743873709551514, m_stop = 18446744073709551615, m_counts = cs,
      m_seconds = 0, m_processed = 0, m_percent = 0, m_shm = None, m_numThreads = 2\<rparr>
     20000000010 11 =
   [(18446743873709551514, 18446743893709551542),
    (18446743893709551543, 18446743913709551552),
    (18446743913709551553, 18446743933709551562),
    (18446743933709551563, 18446743953709551572),
    (18446743953709551573, 18446743973709551582),
    (18446743973709551583, 18446743993709551592),
    (18446743993709551593, 18446744013709551602),
    (18446744013709551603, 18446744033709551612),
    (18446744033709551613, 18446744053709551622),
    (18446744053709551623, 18446744073709551615),
    (0, 18446744073709551615)]"
  by (simp add: chunks_def chunk_def align_def checkedAdd_def Let_def upt_rec)

text \<open>
  C5 at that input: the task that reads index 10 computes the tentative start
  \<open>2^64 - 2\<close>; \<open>align\<close> clips it to \<open>stop_ = 2^64 - 1\<close>, and the unchecked \<open>+ 1\<close> wraps
  to 0, below \<open>start_\<close>. The chunk's stop is clipped to \<open>stop_\<close>.
\<close>

theorem chunk_start_wraps_at_max:
  "align \<lparr>m_start = 18446743873709551514, m_stop = 18446744073709551615, m_counts = [],
      m_seconds = 0, m_processed = 0, m_percent = 0, m_shm = None, m_numThreads = 2\<rparr>
     (18446743873709551514 + 10 * 20000000010) + 1 = 0 \<and>
   chunk \<lparr>m_start = 18446743873709551514, m_stop = 18446744073709551615, m_counts = [],
      m_seconds = 0, m_processed = 0, m_percent = 0, m_shm = None, m_numThreads = 2\<rparr>
     20000000010 10 = (0, 18446744073709551615) \<and>
   fst (chunk \<lparr>m_start = 18446743873709551514, m_stop = 18446744073709551615, m_counts = [],
      m_seconds = 0, m_processed = 0, m_percent = 0, m_shm = None, m_numThreads = 2\<rparr>
     20000000010 10) < 18446743873709551514"
  by (simp add: chunk_def align_def checkedAdd_def Let_def)

text \<open>
  C10 at that input: the task that reads index 10 has the tentative chunk start
  \<open>start_ + 10 * threadDistance = 2^64 - 2\<close>, above \<open>start_\<close>, so it re-derives its start
  as \<open>align(chunkStart) + 1\<close>; that value is 0, which is not greater than the tentative
  start.
\<close>

theorem rederived_start_not_greater_at_max:
  "m_start \<lparr>m_start = 18446743873709551514, m_stop = 18446744073709551615, m_counts = [],
      m_seconds = 0, m_processed = 0, m_percent = 0, m_shm = None, m_numThreads = 2\<rparr>
     < 18446743873709551514 + 10 * 20000000010 \<and>
   fst (chunk \<lparr>m_start = 18446743873709551514, m_stop = 18446744073709551615, m_counts = [],
      m_seconds = 0, m_processed = 0, m_percent = 0, m_shm = None, m_numThreads = 2\<rparr>
     20000000010 10) =
     align \<lparr>m_start = 18446743873709551514, m_stop = 18446744073709551615, m_counts = [],
      m_seconds = 0, m_processed = 0, m_percent = 0, m_shm = None, m_numThreads = 2\<rparr>
       (18446743873709551514 + 10 * 20000000010) + 1 \<and>
   \<not> (18446743873709551514 + 10 * 20000000010
        < fst (chunk \<lparr>m_start = 18446743873709551514, m_stop = 18446744073709551615, m_counts = [],
      m_seconds = 0, m_processed = 0, m_percent = 0, m_shm = None, m_numThreads = 2\<rparr>
     20000000010 10))"
  by (simp add: chunk_def align_def checkedAdd_def Let_def)

lemma sieve_chunks_at_max:
  "sieve_chunks \<lparr>MIN_THREAD_DISTANCE = 10000000, MAX_THREAD_DISTANCE = 20000000000\<rparr>
         \<lparr>m_start = 18446743873709551514, m_stop = 18446744073709551615, m_counts = [],
          m_seconds = 0, m_processed = 0, m_percent = 0, m_shm = None, m_numThreads = 2\<rparr> =
   [(18446743873709551514, 18446743893709551542),
    (18446743893709551543, 18446743913709551552),
    (18446743913709551553, 18446743933709551562),
    (18446743933709551563, 18446743953709551572),
    (18446743953709551573, 18446743973709551582),
    (18446743973709551583, 18446743993709551592),
    (18446743993709551593, 18446744013709551602),
    (18446744013709551603, 18446744033709551612),
    (18446744033709551613, 18446744053709551622),
    (18446744053709551623, 18446744073709551615),
    (0, 18446744073709551615)]"
  unfolding sieve_chunks_def Let_def plan_at_max by (rule chunks_at_max)

lemma not_covers_at_max:
  "\<not> covers
      (sieve_chunks \<lparr>MIN_THREAD_DISTANCE = 10000000, MAX_THREAD_DISTANCE = 20000000000\<rparr>
         \<lparr>m_start = 18446743873709551514, m_stop = 18446744073709551615, m_counts = [],
          m_seconds = 0, m_processed = 0, m_percent = 0, m_shm = None, m_numThreads = 2\<rparr>)
      18446743873709551514 18446744073709551615"
proof
  assume "covers
      (sieve_chunks \<lparr>MIN_THREAD_DISTANCE = 10000000, MAX_THREAD_DISTANCE = 20000000000\<rparr>
         \<lparr>m_start = 18446743873709551514, m_stop = 18446744073709551615, m_counts = [],
          m_seconds = 0, m_processed = 0, m_percent = 0, m_shm = None, m_numThreads = 2\<rparr>)
      18446743873709551514 18446744073709551615"
  then have "{18446744053709551623..18446744073709551615 :: u64} \<inter>
               {0..18446744073709551615} = {}"
    unfolding covers_def sieve_chunks_at_max
    by (elim conjE allE [of _ 9] allE [of _ 10] impE) simp_all
  moreover have "(18446744073709551615 :: u64) \<in> {18446744053709551623..18446744073709551615} \<inter>
               {0..18446744073709551615}"
    by simp
  ultimately show False by blast
qed

text \<open>
  C2 at that input: the chunks of the run end with
  \<open>[2^64 - 1 - 19999999992, 2^64 - 1]\<close> and \<open>[0, 2^64 - 1]\<close>, which overlap (both hold
  \<open>2^64 - 1\<close>), and the last one reaches below \<open>start_\<close>: the chunks do not partition
  \<open>[start_, stop_]\<close>.
\<close>

theorem chunks_overlap_at_max:
  "sieve_chunks \<lparr>MIN_THREAD_DISTANCE = 10000000, MAX_THREAD_DISTANCE = 20000000000\<rparr>
         \<lparr>m_start = 18446743873709551514, m_stop = 18446744073709551615, m_counts = [],
          m_seconds = 0, m_processed = 0, m_percent = 0, m_shm = None, m_numThreads = 2\<rparr> =
   [(18446743873709551514, 18446743893709551542),
    (18446743893709551543, 18446743913709551552),
    (18446743913709551553, 18446743933709551562),
    (18446743933709551563, 18446743953709551572),
    (18446743953709551573, 18446743973709551582),
    (18446743973709551583, 18446743993709551592),
    (18446743993709551593, 18446744013709551602),
    (18446744013709551603, 18446744033709551612),
    (18446744033709551613, 18446744053709551622),
    (18446744053709551623, 18446744073709551615),
    (0, 18446744073709551615)] \<and>
   (18446744073709551615 :: u64) \<in>
     {18446744053709551623..18446744073709551615} \<inter> {0..18446744073709551615} \<and>
   (0 :: u64) < 18446743873709551514"
  using sieve_chunks_at_max by simp

section \<open>Merging is independent of the schedule\<close>

lemma vadd_commute: "vadd xs ys = vadd ys xs"
  unfolding vadd_def
proof (induction xs arbitrary: ys)
  case Nil
  show ?case by simp
next
  case (Cons x xs)
  show ?case by (cases ys) (simp_all add: Cons.IH add.commute)
qed

lemma vadd_assoc: "vadd (vadd xs ys) zs = vadd xs (vadd ys zs)"
  unfolding vadd_def
proof (induction xs arbitrary: ys zs)
  case Nil
  show ?case by simp
next
  case (Cons x xs)
  show ?case
  proof (cases ys)
    case Nil
    then show ?thesis by simp
  next
    case ys: (Cons y ys')
    show ?thesis by (cases zs) (simp_all add: ys Cons.IH add.assoc)
  qed
qed

lemma vadd_right_commute: "vadd (vadd g e) c = vadd (vadd g c) e"
  by (metis vadd_assoc vadd_commute)

lemma merge_all_vadd: "merge_all (vadd g e) ws = vadd (merge_all g ws) e"
proof (induction ws arbitrary: g)
  case Nil
  show ?case by simp
next
  case (Cons w ws)
  show ?case
  proof (cases w)
    case None
    then show ?thesis by (simp add: Cons.IH)
  next
    case (Some c)
    have "merge_all (vadd (vadd g e) c) ws = merge_all (vadd (vadd g c) e) ws"
      by (simp only: vadd_right_commute)
    then show ?thesis by (simp add: Some Cons.IH)
  qed
qed

lemma merge_all_take_chunk:
  "t < length ws \<Longrightarrow> ws ! t = Some c \<Longrightarrow>
     merge_all g (ws[t := Some (vadd c e)]) = vadd (merge_all g ws) e"
proof (induction ws arbitrary: t g)
  case Nil
  then show ?case by simp
next
  case (Cons w ws)
  show ?case
  proof (cases t)
    case 0
    with Cons.prems have "w = Some c" by simp
    then show ?thesis
      by (simp add: 0 vadd_assoc [symmetric] merge_all_vadd)
  next
    case (Suc t')
    with Cons.prems have "t' < length ws" "ws ! t' = Some c" by simp_all
    then have "\<And>g. merge_all g (ws[t' := Some (vadd c e)]) = vadd (merge_all g ws) e"
      by (rule Cons.IH)
    then show ?thesis by (cases w) (simp_all add: Suc)
  qed
qed

lemma merge_all_end:
  "t < length ws \<Longrightarrow> ws ! t = Some c \<Longrightarrow>
     merge_all (vadd g c) (ws[t := None]) = merge_all g ws"
proof (induction ws arbitrary: t g)
  case Nil
  then show ?case by simp
next
  case (Cons w ws)
  show ?case
  proof (cases t)
    case 0
    with Cons.prems have "w = Some c" by simp
    then show ?thesis by (simp add: 0)
  next
    case (Suc t')
    with Cons.prems have "t' < length ws" "ws ! t' = Some c" by simp_all
    then have ih: "\<And>g. merge_all (vadd g c) (ws[t' := None]) = merge_all g ws"
      by (rule Cons.IH)
    show ?thesis
    proof (cases w)
      case None
      then show ?thesis by (simp add: Suc ih)
    next
      case (Some d)
      have "merge_all (vadd (vadd g c) d) (ws[t' := None]) =
            merge_all (vadd (vadd g d) c) (ws[t' := None])"
        by (simp only: vadd_right_commute)
      then show ?thesis by (simp add: Suc Some ih)
    qed
  qed
qed

lemma merge_all_joined: "list_all (\<lambda>w. w = None) ws \<Longrightarrow> merge_all g ws = g"
  by (induction ws) simp_all

lemma merge_all_start: "merge_all zeros (replicate n (Some zeros)) = zeros"
proof (induction n)
  case 0
  show ?case by simp
next
  case (Suc n)
  have "vadd zeros zeros = zeros" by (simp add: vadd_def zeros_def numeral_eq_Suc)
  with Suc show ?case by simp
qed

lemma unat_succ_below:
  assumes "(i :: u64) < n"
  shows "unat (i + 1) = unat i + 1"
proof -
  from assms have "unat i < unat n" by (simp add: word_less_nat_alt)
  with unat_u64_le [of n] have "unat i + unat (1 :: u64) < 18446744073709551616" by simp
  then have "unat (i + 1) = unat i + unat (1 :: u64)" by (rule unat_add_u64)
  then show ?thesis by simp
qed

lemma task_step_invariant:
  assumes le: "p_i p \<le> iters" and ended: "None \<in> set (p_local p) \<longrightarrow> p_i p = iters"
  shows "p_i (task_step E ps td iters p t) \<le> iters"
    and "None \<in> set (p_local (task_step E ps td iters p t)) \<longrightarrow>
           p_i (task_step E ps td iters p t) = iters"
    and "unat (p_i p) \<le> unat (p_i (task_step E ps td iters p t))"
    and "length (p_local (task_step E ps td iters p t)) = length (p_local p)"
    and "merge_all (p_counts (task_step E ps td iters p t))
             (p_local (task_step E ps td iters p t)) =
           foldl vadd (merge_all (p_counts p) (p_local p))
             (map (\<lambda>i. case chunk ps td (of_nat i) of (a, b) \<Rightarrow> E a b)
                [unat (p_i p)..<unat (p_i (task_step E ps td iters p t))])"
proof -
  define q where "q = task_step E ps td iters p t"
  consider (idle) "\<not> t < length (p_local p) \<or> p_local p ! t = None"
    | (merge) c where "t < length (p_local p)" "p_local p ! t = Some c" "iters \<le> p_i p"
    | (take) c where "t < length (p_local p)" "p_local p ! t = Some c" "p_i p < iters"
    by (cases "p_local p ! t"; cases "t < length (p_local p)"; cases "iters \<le> p_i p")
       (auto simp add: not_le)
  then have "p_i q \<le> iters \<and> (None \<in> set (p_local q) \<longrightarrow> p_i q = iters) \<and>
      unat (p_i p) \<le> unat (p_i q) \<and> length (p_local q) = length (p_local p) \<and>
      merge_all (p_counts q) (p_local q) =
           foldl vadd (merge_all (p_counts p) (p_local p))
             (map (\<lambda>i. case chunk ps td (of_nat i) of (a, b) \<Rightarrow> E a b)
                [unat (p_i p)..<unat (p_i q)])"
  proof cases
    case idle
    then have "q = p" by (auto simp add: q_def task_step_def)
    with le ended show ?thesis by simp
  next
    case merge
    then have q: "q = p\<lparr>p_local := (p_local p)[t := None], p_counts := vadd (p_counts p) c\<rparr>"
      by (simp add: q_def task_step_def)
    from merge(3) le have "p_i p = iters" by (rule antisym [rotated])
    with merge(1,2) le show ?thesis
      by (simp add: q merge_all_end)
  next
    case take
    obtain a b where ab: "chunk ps td (p_i p) = (a, b)" by (cases "chunk ps td (p_i p)")
    from take(3) have nle: "\<not> iters \<le> p_i p" by (simp only: not_le)
    have q: "q = p\<lparr>p_i := p_i p + 1, p_local := (p_local p)[t := Some (vadd c (E a b))]\<rparr>"
      using take(1,2) nle by (simp add: q_def task_step_def ab)
    have s: "unat (p_i p + 1) = unat (p_i p) + 1" using take(3) by (rule unat_succ_below)
    from take(3) have "unat (p_i p) < unat iters" by (simp add: word_less_nat_alt)
    then have 1: "p_i p + 1 \<le> iters" by (simp add: word_le_nat_alt s)
    from take(3) ended have "None \<notin> set (p_local p)" by auto
    moreover have "set ((p_local p)[t := Some (vadd c (E a b))]) \<subseteq>
        insert (Some (vadd c (E a b))) (set (p_local p))"
      by (rule set_update_subset_insert)
    ultimately have 2: "None \<notin> set ((p_local p)[t := Some (vadd c (E a b))])" by auto
    have 3: "merge_all (p_counts p) ((p_local p)[t := Some (vadd c (E a b))]) =
             vadd (merge_all (p_counts p) (p_local p)) (E a b)"
      using take(1,2) by (rule merge_all_take_chunk)
    show ?thesis
      unfolding q using 1 2 by (simp add: s 3 ab)
  qed
  then show "p_i (task_step E ps td iters p t) \<le> iters"
    and "None \<in> set (p_local (task_step E ps td iters p t)) \<longrightarrow>
           p_i (task_step E ps td iters p t) = iters"
    and "unat (p_i p) \<le> unat (p_i (task_step E ps td iters p t))"
    and "length (p_local (task_step E ps td iters p t)) = length (p_local p)"
    and "merge_all (p_counts (task_step E ps td iters p t))
             (p_local (task_step E ps td iters p t)) =
           foldl vadd (merge_all (p_counts p) (p_local p))
             (map (\<lambda>i. case chunk ps td (of_nat i) of (a, b) \<Rightarrow> E a b)
                [unat (p_i p)..<unat (p_i (task_step E ps td iters p t))])"
    unfolding q_def by simp_all
qed

lemma run_pool_invariant:
  assumes "p_i p \<le> iters" and "None \<in> set (p_local p) \<longrightarrow> p_i p = iters"
  shows "p_i (run_pool E ps td iters sched p) \<le> iters \<and>
     (None \<in> set (p_local (run_pool E ps td iters sched p)) \<longrightarrow>
        p_i (run_pool E ps td iters sched p) = iters) \<and>
     unat (p_i p) \<le> unat (p_i (run_pool E ps td iters sched p)) \<and>
     length (p_local (run_pool E ps td iters sched p)) = length (p_local p) \<and>
     merge_all (p_counts (run_pool E ps td iters sched p))
         (p_local (run_pool E ps td iters sched p)) =
       foldl vadd (merge_all (p_counts p) (p_local p))
         (map (\<lambda>i. case chunk ps td (of_nat i) of (a, b) \<Rightarrow> E a b)
            [unat (p_i p)..<unat (p_i (run_pool E ps td iters sched p))])"
  using assms
proof (induction sched arbitrary: p)
  case Nil
  then show ?case by (simp add: run_pool_def)
next
  case (Cons t sched)
  define q where "q = task_step E ps td iters p t"
  note st = task_step_invariant [OF Cons.prems, of E ps td t, folded q_def]
  define r where "r = run_pool E ps td iters sched q"
  have rq: "run_pool E ps td iters (t # sched) p = r"
    by (simp add: run_pool_def r_def q_def)
  note ih = Cons.IH [OF st(1) st(2), folded r_def]
  from ih st(3) have m: "unat (p_i p) \<le> unat (p_i q)" "unat (p_i q) \<le> unat (p_i r)" by simp_all
  then have "[unat (p_i p)..<unat (p_i r)] =
             [unat (p_i p)..<unat (p_i q)] @ [unat (p_i q)..<unat (p_i r)]"
    by (metis le_Suc_ex upt_add_eq_append)
  with ih st m show ?case unfolding rq by simp
qed

lemma run_pool_joined:
  assumes j: "joined (run_pool E ps td iters sched
                 \<lparr>p_i = 0, p_local = replicate n (Some zeros), p_counts = zeros\<rparr>)"
    and n: "0 < n"
  shows "p_counts (run_pool E ps td iters sched
                 \<lparr>p_i = 0, p_local = replicate n (Some zeros), p_counts = zeros\<rparr>) =
         foldl vadd zeros (map (\<lambda>(a, b). E a b) (chunks ps td iters))"
proof -
  define p0 where "p0 = \<lparr>p_i = 0, p_local = replicate n (Some zeros), p_counts = zeros\<rparr>"
  define r where "r = run_pool E ps td iters sched p0"
  have "p_i p0 \<le> iters" "None \<in> set (p_local p0) \<longrightarrow> p_i p0 = iters"
    by (simp_all add: p0_def)
  note inv = run_pool_invariant [OF this, of E ps td sched, folded r_def]
  from j have all: "list_all (\<lambda>w. w = None) (p_local r)"
    by (simp add: joined_def r_def p0_def)
  from inv n have "p_local r \<noteq> []" by (auto simp add: p0_def)
  with all have "None \<in> set (p_local r)" by (cases "p_local r") simp_all
  with inv have i: "p_i r = iters" by simp
  from inv have "merge_all (p_counts r) (p_local r) =
       foldl vadd (merge_all zeros (replicate n (Some zeros)))
         (map (\<lambda>i. case chunk ps td (of_nat i) of (a, b) \<Rightarrow> E a b) [0..<unat iters])"
    by (simp add: i p0_def)
  then have "p_counts r = foldl vadd zeros
         (map (\<lambda>i. case chunk ps td (of_nat i) of (a, b) \<Rightarrow> E a b) [0..<unat iters])"
    by (simp add: merge_all_joined [OF all] merge_all_start)
  then show ?thesis
    unfolding r_def p0_def chunks_def by (simp add: comp_def)
qed

lemma reset_fields:
  "m_start (reset ps) = m_start ps" "m_stop (reset ps) = m_stop ps"
  "m_counts (reset ps) = zeros"
  by (simp_all add: reset_def)

lemma getDistance_reset: "getDistance (reset ps) = getDistance ps"
  by (simp add: getDistance_def reset_fields)

lemma align_reset: "align (reset ps) n = align ps n"
  by (simp only: align_def reset_fields)

lemma chunk_reset: "chunk (reset ps) td i = chunk ps td i"
  by (simp only: chunk_def reset_fields align_reset)

lemma chunks_reset: "chunks (reset ps) td iters = chunks ps td iters"
  by (simp add: chunks_def chunk_reset)

lemma getThreadDistance_reset: "getThreadDistance cfg (reset ps) t = getThreadDistance cfg ps t"
  by (simp add: getThreadDistance_def reset_fields getDistance_reset)

lemma idealNumThreads_reset: "idealNumThreads cfg (reset ps) = idealNumThreads cfg ps"
proof -
  have "m_numThreads (reset ps) = m_numThreads ps" by (simp add: reset_def)
  then show ?thesis
    by (simp add: idealNumThreads_def reset_fields getDistance_reset)
qed

lemma sieve_chunks_reset: "sieve_chunks cfg (reset ps) = sieve_chunks cfg ps"
  by (simp add: sieve_chunks_def idealNumThreads_reset getThreadDistance_reset
      getDistance_reset chunks_reset)

lemma run_pool_reset: "run_pool E (reset ps) td iters sched p = run_pool E ps td iters sched p"
proof -
  have "task_step E (reset ps) td iters = task_step E ps td iters"
    by (intro ext) (simp only: task_step_def chunk_reset)
  then show ?thesis by (simp only: run_pool_def)
qed

lemma m_counts_publish: "m_counts (publish ps) = m_counts ps"
  by (cases "m_shm ps") (simp_all add: publish_def)

text \<open>
  In a multi-threaded run that puts at least one thread in the pool, whatever the
  schedule and the number of threads, the counters are the sum of the engine's counts
  over the chunks.
\<close>

lemma sieve_multi_threaded:
  assumes le: "m_start ps \<le> m_stop ps" and mt: "idealNumThreads cfg ps \<noteq> 1"
    and run: "sieve cfg E elapsed sched ps = Some (ps', n)" and n: "0 < n"
  shows "m_counts ps' = foldl vadd zeros (map (\<lambda>(a, b). E a b) (sieve_chunks cfg ps))"
    and "n = nat (sint (ucast (inBetween 1 (scast (idealNumThreads cfg ps))
               ((getDistance ps - 1) div
                   getThreadDistance cfg ps (idealNumThreads cfg ps) + 1)) :: cint))"
proof -
  define td where "td = getThreadDistance cfg ps (idealNumThreads cfg ps)"
  define iters where "iters = (getDistance ps - 1) div td + 1"
  define k where "k = nat (sint (ucast (inBetween 1 (scast (idealNumThreads cfg ps)) iters) :: cint))"
  define r where "r = run_pool E ps td iters sched
                          \<lparr>p_i = 0, p_local = replicate k (Some zeros), p_counts = zeros\<rparr>"
  from le have nlt: "\<not> m_stop ps < m_start ps" by (simp only: not_less)
  have s: "sieve cfg E elapsed sched ps =
      (if joined r
       then Some (publish ((reset ps)\<lparr>m_counts := p_counts r, m_seconds := elapsed\<rparr>), k)
       else None)"
    using nlt mt
    by (simp add: sieve_def Let_def reset_fields idealNumThreads_reset getThreadDistance_reset
        getDistance_reset run_pool_reset td_def iters_def k_def r_def)
  from run s have j: "joined r" by (simp split: if_splits)
  with run s have e: "ps' = publish ((reset ps)\<lparr>m_counts := p_counts r, m_seconds := elapsed\<rparr>)"
    and kn: "n = k" by simp_all
  show "n = nat (sint (ucast (inBetween 1 (scast (idealNumThreads cfg ps))
               ((getDistance ps - 1) div
                   getThreadDistance cfg ps (idealNumThreads cfg ps) + 1)) :: cint))"
    unfolding kn k_def iters_def td_def ..
  from n kn have "0 < k" by simp
  with j have "p_counts r = foldl vadd zeros (map (\<lambda>(a, b). E a b) (chunks ps td iters))"
    unfolding r_def by (rule run_pool_joined)
  then show "m_counts ps' = foldl vadd zeros (map (\<lambda>(a, b). E a b) (sieve_chunks cfg ps))"
    by (simp add: e m_counts_publish sieve_chunks_def Let_def td_def iters_def)
qed

section \<open>A schedule that completes\<close>

text \<open>
  Thread 0 takes every chunk; then each thread finds the index at \<open>iters\<close>, merges and
  ends. The run below is joined, so a multi-threaded run exists for every input.
\<close>

lemma run_pool_append:
  "run_pool E ps td iters (xs @ ys) p = run_pool E ps td iters ys (run_pool E ps td iters xs p)"
  by (simp add: run_pool_def)

lemma run_pool_take_all:
  assumes "p_local p = Some c # ws" and "unat (p_i p) + m \<le> unat iters"
  shows "\<exists>c'. run_pool E ps td iters (replicate m 0) p =
           p\<lparr>p_i := p_i p + of_nat m, p_local := Some c' # ws\<rparr>"
  using assms
proof (induction m arbitrary: p c)
  case 0
  then have "run_pool E ps td iters (replicate 0 0) p =
      p\<lparr>p_i := p_i p + of_nat 0, p_local := Some c # ws\<rparr>"
    by (simp add: run_pool_def)
  then show ?case by blast
next
  case (Suc m)
  from Suc.prems(2) have "unat (p_i p) < unat iters" by simp
  then have lt: "p_i p < iters" by (simp add: word_less_nat_alt)
  then have nle: "\<not> iters \<le> p_i p" by (simp only: not_le)
  obtain a b where ab: "chunk ps td (p_i p) = (a, b)" by (cases "chunk ps td (p_i p)")
  define q where "q = p\<lparr>p_i := p_i p + 1, p_local := Some (vadd c (E a b)) # ws\<rparr>"
  have st: "task_step E ps td iters p 0 = q"
    using Suc.prems(1) nle by (simp add: task_step_def ab q_def)
  have "unat (p_i q) = unat (p_i p) + 1"
    using unat_succ_below [OF lt] by (simp add: q_def)
  with Suc.prems(2) have "unat (p_i q) + m \<le> unat iters" by simp
  moreover have "p_local q = Some (vadd c (E a b)) # ws" by (simp add: q_def)
  ultimately obtain c' where
    "run_pool E ps td iters (replicate m 0) q = q\<lparr>p_i := p_i q + of_nat m, p_local := Some c' # ws\<rparr>"
    using Suc.IH by blast
  then have "run_pool E ps td iters (replicate (Suc m) 0) p =
      p\<lparr>p_i := p_i p + of_nat (Suc m), p_local := Some c' # ws\<rparr>"
    by (simp add: run_pool_def st q_def add.assoc)
  then show ?case by blast
qed

lemma run_pool_merge_all:
  assumes "iters \<le> p_i p"
  shows "length (p_local (run_pool E ps td iters ts p)) = length (p_local p) \<and>
     (\<forall>t < length (p_local p).
        p_local (run_pool E ps td iters ts p) ! t =
          (if t \<in> set ts then None else p_local p ! t))"
  using assms
proof (induction ts arbitrary: p)
  case Nil
  then show ?case by (simp add: run_pool_def)
next
  case (Cons u ts)
  define q where "q = task_step E ps td iters p u"
  have i: "p_i q = p_i p" and l: "length (p_local q) = length (p_local p)"
    and v: "\<forall>t < length (p_local p). p_local q ! t = (if t = u then None else p_local p ! t)"
    using Cons.prems
    by (auto simp add: q_def task_step_def nth_list_update split: option.split)
  from Cons.prems i have "iters \<le> p_i q" by simp
  note ih = Cons.IH [OF this]
  have r: "run_pool E ps td iters (u # ts) p = run_pool E ps td iters ts q"
    by (simp add: run_pool_def q_def)
  show ?case unfolding r using ih l v by auto
qed

lemma run_pool_completes:
  assumes n: "0 < n"
  shows "joined (run_pool E ps td iters (replicate (unat iters) 0 @ [0..<n])
           \<lparr>p_i = 0, p_local = replicate n (Some zeros), p_counts = g\<rparr>)"
proof -
  define p0 where "p0 = \<lparr>p_i = 0, p_local = replicate n (Some zeros), p_counts = g\<rparr>"
  from n obtain k where k: "n = Suc k" by (cases n) simp_all
  have "p_local p0 = Some zeros # replicate k (Some zeros)" by (simp add: p0_def k)
  moreover have "unat (p_i p0) + unat iters \<le> unat iters" by (simp add: p0_def)
  ultimately obtain c' where
    q: "run_pool E ps td iters (replicate (unat iters) 0) p0 =
          p0\<lparr>p_i := p_i p0 + of_nat (unat iters), p_local := Some c' # replicate k (Some zeros)\<rparr>"
    using run_pool_take_all by blast
  define q where "q = run_pool E ps td iters (replicate (unat iters) 0) p0"
  have "p_i q = iters" unfolding q_def q by (simp add: p0_def)
  have lq: "length (p_local q) = n" unfolding q_def q by (simp add: k)
  from \<open>p_i q = iters\<close> have "iters \<le> p_i q" by simp
  note m = run_pool_merge_all [OF this, of E ps td "[0..<n]"]
  define r where "r = run_pool E ps td iters [0..<n] q"
  from m lq have "length (p_local r) = n" "\<forall>t < n. p_local r ! t = None"
    by (simp_all add: r_def)
  then have "list_all (\<lambda>w. w = None) (p_local r)"
    by (simp add: list_all_length)
  then show ?thesis
    unfolding joined_def p0_def [symmetric] run_pool_append q_def [symmetric] r_def [symmetric] .
qed

lemma sieve_multi_threaded_run:
  assumes le: "m_start ps \<le> m_stop ps" and mt: "idealNumThreads cfg ps \<noteq> 1"
    and td: "getThreadDistance cfg ps (idealNumThreads cfg ps) = td"
    and it: "(getDistance ps - 1) div td + 1 = iters"
    and k: "nat (sint (ucast (inBetween 1 (scast (idealNumThreads cfg ps)) iters) :: cint)) = k"
    and j: "joined (run_pool E ps td iters sched
               \<lparr>p_i = 0, p_local = replicate k (Some zeros), p_counts = zeros\<rparr>)"
  shows "\<exists>ps'. sieve cfg E elapsed sched ps = Some (ps', k)"
proof -
  define r where "r = run_pool E ps td iters sched
                          \<lparr>p_i = 0, p_local = replicate k (Some zeros), p_counts = zeros\<rparr>"
  from le have nlt: "\<not> m_stop ps < m_start ps" by (simp only: not_less)
  have "sieve cfg E elapsed sched ps =
      (if joined r
       then Some (publish ((reset ps)\<lparr>m_counts := p_counts r, m_seconds := elapsed\<rparr>), k)
       else None)"
    using nlt mt
    by (simp add: sieve_def Let_def reset_fields idealNumThreads_reset getThreadDistance_reset
        getDistance_reset run_pool_reset td it k r_def)
  with j show ?thesis by (simp add: r_def)
qed

text \<open>
  C1 at the interval ending at \<open>2^64 - 1\<close>: the run in which thread 0 takes every chunk
  and then both threads merge returns the sum of the engine's counts over the eleven
  chunks, the last of which is \<open>[0, 2^64 - 1]\<close>; the single-threaded path returns the
  counts of \<open>[start_, stop_]\<close> alone.
\<close>

theorem sieve_counts_at_max:
  "map_option (\<lambda>r. (m_counts (fst r), snd r))
     (sieve \<lparr>MIN_THREAD_DISTANCE = 10000000, MAX_THREAD_DISTANCE = 20000000000\<rparr> E elapsed
        [0, 0, 0, 0, 0, 0, 0, 0, 0, 0, 0, 0, 1]
        \<lparr>m_start = 18446743873709551514, m_stop = 18446744073709551615, m_counts = [],
      m_seconds = 0, m_processed = 0, m_percent = 0, m_shm = None, m_numThreads = 2\<rparr>) =
   Some (foldl vadd zeros (map (\<lambda>(a, b). E a b)
     [(18446743873709551514, 18446743893709551542),
      (18446743893709551543, 18446743913709551552),
      (18446743913709551553, 18446743933709551562),
      (18446743933709551563, 18446743953709551572),
      (18446743953709551573, 18446743973709551582),
      (18446743973709551583, 18446743993709551592),
      (18446743993709551593, 18446744013709551602),
      (18446744013709551603, 18446744033709551612),
      (18446744033709551613, 18446744053709551622),
      (18446744053709551623, 18446744073709551615),
      (0, 18446744073709551615)]), 2)"
proof -
  define C where "C = \<lparr>MIN_THREAD_DISTANCE = 10000000, MAX_THREAD_DISTANCE = 20000000000\<rparr>"
  define P :: ParallelPrimeSieve where "P = \<lparr>m_start = 18446743873709551514, m_stop = 18446744073709551615, m_counts = [],
      m_seconds = 0, m_processed = 0, m_percent = 0, m_shm = None, m_numThreads = 2\<rparr>"
  have pl: "idealNumThreads C P = 2" "getThreadDistance C P 2 = 20000000010"
    "(getDistance P - 1) div 20000000010 + 1 = (11 :: u64)"
    unfolding C_def P_def by (rule plan_at_max)+
  have mt: "idealNumThreads C P \<noteq> 1" by (simp add: pl)
  have n: "nat (sint (ucast (inBetween 1 (scast (idealNumThreads C P)) (11 :: u64)) :: cint)) = 2"
    by (simp add: pl inBetween_def)
  have u: "unat (11 :: u64) = 11" by simp
  have sch: "replicate (unat (11 :: u64)) 0 @ [0..<2] = [0, 0, 0, 0, 0, 0, 0, 0, 0, 0, 0, 0, Suc 0]"
    unfolding u by (simp add: eval_nat_numeral upt_rec)
  have "joined (run_pool E P 20000000010 11 (replicate (unat (11 :: u64)) 0 @ [0..<2])
                 \<lparr>p_i = 0, p_local = replicate 2 (Some zeros), p_counts = zeros\<rparr>)"
    by (rule run_pool_completes) simp
  then have j: "joined (run_pool E P 20000000010 11 [0, 0, 0, 0, 0, 0, 0, 0, 0, 0, 0, 0, Suc 0]
                 \<lparr>p_i = 0, p_local = replicate 2 (Some zeros), p_counts = zeros\<rparr>)"
    by (simp only: sch)
  have le: "m_start P \<le> m_stop P" by (simp add: P_def)
  have td: "getThreadDistance C P (idealNumThreads C P) = 20000000010" by (simp add: pl)
  obtain ps' where r: "sieve C E elapsed [0, 0, 0, 0, 0, 0, 0, 0, 0, 0, 0, 0, Suc 0] P = Some (ps', 2)"
    using sieve_multi_threaded_run [OF le mt td pl(3) n j] by blast
  have "(0 :: nat) < 2" by simp
  note sieve_multi_threaded(1) [OF le mt r this]
  moreover have "sieve_chunks C P = chunks P 20000000010 11"
    by (simp add: sieve_chunks_def Let_def pl)
  moreover have "chunks P 20000000010 11 = [(18446743873709551514, 18446743893709551542),
      (18446743893709551543, 18446743913709551552),
      (18446743913709551553, 18446743933709551562),
      (18446743933709551563, 18446743953709551572),
      (18446743953709551573, 18446743973709551582),
      (18446743973709551583, 18446743993709551592),
      (18446743993709551593, 18446744013709551602),
      (18446744013709551603, 18446744033709551612),
      (18446744033709551613, 18446744053709551622),
      (18446744053709551623, 18446744073709551615),
      (0, 18446744073709551615)]"
    unfolding P_def by (rule chunks_at_max)
  ultimately have "map_option (\<lambda>r. (m_counts (fst r), snd r))
     (sieve C E elapsed [0, 0, 0, 0, 0, 0, 0, 0, 0, 0, 0, 0, Suc 0] P) =
   Some (foldl vadd zeros (map (\<lambda>(a, b). E a b)
     [(18446743873709551514, 18446743893709551542),
      (18446743893709551543, 18446743913709551552),
      (18446743913709551553, 18446743933709551562),
      (18446743933709551563, 18446743953709551572),
      (18446743953709551573, 18446743973709551582),
      (18446743973709551583, 18446743993709551592),
      (18446743993709551593, 18446744013709551602),
      (18446744013709551603, 18446744033709551612),
      (18446744033709551613, 18446744053709551622),
      (18446744053709551623, 18446744073709551615),
      (0, 18446744073709551615)]), 2)"
    by (simp add: r)
  then show ?thesis
    unfolding C_def P_def by simp
qed

section \<open>The size of the pool\<close>







end
